theory Spec2Isabelle
  imports Complex_Main "HOL-Library.AList" "HOL-Library.Log_Nat" "HOL-Library.Sublist"
begin

section \<open>JavaScript values\<close>

text \<open>
  The registry file and the request bodies are JSON, and the store works on whatever
  \<open>JSON.parse\<close> hands it: the TypeScript types are erased at run time, which is why
  \<open>sanitizeSnapshot\<close> exists. Values are therefore modelled as JavaScript values.
  A number is an IEEE double: a finite value is the real number it denotes, next to the
  three non-finite values; the value of a decimal literal and the result of an
  arithmetic operation are rounded to the nearest double (\<open>toDouble\<close>, below).
  An object is the list of its own enumerable properties; a well-formed object has
  pairwise distinct keys, as \<open>JSON.parse\<close> and object literals produce them. The order in
  which JavaScript enumerates integer-like keys is not represented: objects are compared
  through \<open>map_of\<close>. A string is the list of the UTF-8 bytes of the JavaScript string.
\<close>

datatype number = Finite real | NaN | PosInfinity | NegInfinity

datatype json =
    JNull
  | JBool bool
  | JNum number
  | JStr string
  | JArr "json list"
  | JObj "(string \<times> json) list"

text \<open>\<open>v.k\<close> for the field names the code reads: \<open>None\<close> is \<open>undefined\<close>. Arrays and
  primitives have none of these fields.\<close>

fun getField :: "json \<Rightarrow> string \<Rightarrow> json option" where
  "getField (JObj kvs) k = map_of kvs k"
| "getField _ k = None"

fun truthy :: "json \<Rightarrow> bool" where
  "truthy JNull = False"
| "truthy (JBool b) = b"
| "truthy (JNum n) = (case n of Finite r \<Rightarrow> r \<noteq> 0 | NaN \<Rightarrow> False | _ \<Rightarrow> True)"
| "truthy (JStr s) = (s \<noteq> [])"
| "truthy (JArr xs) = True"
| "truthy (JObj kvs) = True"

text \<open>\<open>typeof v === 'object'\<close>\<close>

fun typeofObject :: "json \<Rightarrow> bool" where
  "typeofObject JNull = True"
| "typeofObject (JArr xs) = True"
| "typeofObject (JObj kvs) = True"
| "typeofObject _ = False"

fun isString :: "json option \<Rightarrow> bool" where
  "isString (Some (JStr s)) = True"
| "isString _ = False"

fun isNonEmptyString :: "json option \<Rightarrow> bool" where
  "isNonEmptyString (Some (JStr s)) = (s \<noteq> [])"
| "isNonEmptyString _ = False"

fun isNumber :: "json option \<Rightarrow> bool" where
  "isNumber (Some (JNum n)) = True"
| "isNumber _ = False"

fun isNull :: "json option \<Rightarrow> bool" where
  "isNull (Some JNull) = True"
| "isNull _ = False"

text \<open>Decimal rendering of an array index, for \<open>Object.entries\<close> of an array.\<close>

function decimal :: "nat \<Rightarrow> string" where
  "decimal n = (if n < 10 then [char_of (48 + n)]
                else decimal (n div 10) @ [char_of (48 + n mod 10)])"
  by pat_completeness auto
termination
  by (relation "measure id") auto

fun entries :: "json \<Rightarrow> (string \<times> json) list" where
  "entries (JObj kvs) = kvs"
| "entries (JArr xs) = zip (map decimal [0..<length xs]) xs"
| "entries _ = []"

section \<open>The registry data model\<close>

text \<open>
  \<open>PrinterSnapshot\<close>. The entries of \<open>nodes\<close>, \<open>printers\<close> and \<open>states\<close> are the objects
  that passed the validity filters, kept whole; \<open>states = None\<close> is \<open>undefined\<close>.
\<close>

record snapshot =
  nodes :: "json list"
  printers :: "json list"
  states :: "(string \<times> json) list option"
  updatedAt :: number

definition isValidNode :: "json \<Rightarrow> bool" where
  "isValidNode entry =
     (if \<not> truthy entry \<or> \<not> typeofObject entry then False
      else isNonEmptyString (getField entry ''id'') \<and>
           isNonEmptyString (getField entry ''name'') \<and>
           isNumber (getField entry ''createdAt''))"

definition isValidPrinter :: "json \<Rightarrow> json option list \<Rightarrow> bool" where
  "isValidPrinter entry nodeIds =
     (if \<not> truthy entry \<or> \<not> typeofObject entry then False
      else isNonEmptyString (getField entry ''id'') \<and>
           isNonEmptyString (getField entry ''name'') \<and>
           isNonEmptyString (getField entry ''baseUrl'') \<and>
           isString (getField entry ''nodeId'') \<and>
           getField entry ''nodeId'' \<in> set nodeIds \<and>
           isNumber (getField entry ''createdAt''))"

definition isValidState :: "json \<Rightarrow> bool" where
  "isValidState entry =
     (if \<not> truthy entry \<or> \<not> typeofObject entry then False
      else
        let isValidLabel = isNonEmptyString (getField entry ''label'');
            isValidVariant = isString (getField entry ''variant'');
            isValidProgress = (isNull (getField entry ''progress'') \<or> isNumber (getField entry ''progress''));
            isValidError = (isNull (getField entry ''error'') \<or> isString (getField entry ''error''));
            isValidUpdatedAt = (isNull (getField entry ''updatedAt'') \<or> isNumber (getField entry ''updatedAt''));
            isValidMessage = (isNull (getField entry ''message'') \<or> isString (getField entry ''message''))
        in isValidLabel \<and> isValidVariant \<and> isValidProgress \<and> isValidError \<and>
           isValidUpdatedAt \<and> isValidMessage)"


section \<open>The environment of the store\<close>

text \<open>
  What \<open>fs.readFile\<close> followed by \<open>JSON.parse\<close> yields: the file is missing (\<open>ENOENT\<close>), or
  the read or the parse throws something else, or the text parses to a value.
\<close>

datatype store_file = Missing | Unreadable | Holds json

text \<open>
  The state the store's functions read and change: the file, whether \<open>fs.mkdir\<close> and
  \<open>fs.writeFile\<close> succeed, the module variable \<open>cache\<close> (snapshot and \<open>expiresAt\<close>), the
  successive readings of \<open>Date.now()\<close> and the successive results of \<open>createId()\<close>
  (\<open>randomUUID\<close>, or its fallback), each with the number of values already consumed.
\<close>

record world =
  disk :: store_file
  writable :: bool
  cache :: "(snapshot \<times> int) option"
  clock :: "nat \<Rightarrow> int"
  ticks :: nat
  uuids :: "nat \<Rightarrow> string"
  drawn :: nat

text \<open>A thrown \<open>Error(message)\<close>, or the rejection of a file-system write.\<close>

datatype failure = Error string | WriteError

definition CACHE_TTL_MS :: int where
  "CACHE_TTL_MS = 5000"

definition now :: "world \<Rightarrow> int \<times> world" where
  "now w = (clock w (ticks w), w\<lparr>ticks := Suc (ticks w)\<rparr>)"

definition createId :: "world \<Rightarrow> string \<times> world" where
  "createId w = (uuids w (drawn w), w\<lparr>drawn := Suc (drawn w)\<rparr>)"

text \<open>
  \<open>String.prototype.trim\<close>. A string stands for the UTF-8 bytes of the JavaScript string,
  in which the white space and line terminators of ECMAScript take one, two or three
  bytes: U+0009 to U+000D and U+0020; U+00A0; U+1680, U+2000 to U+200A, U+2028, U+2029,
  U+202F, U+205F, U+3000 and U+FEFF.
\<close>

definition space1 :: "char \<Rightarrow> bool" where
  "space1 a = (a \<in> set [CHR 0x09, CHR 0x0A, CHR 0x0B, CHR 0x0C, CHR 0x0D, CHR 0x20])"

definition space2 :: "char \<Rightarrow> char \<Rightarrow> bool" where
  "space2 a b = (a = CHR 0xC2 \<and> b = CHR 0xA0)"

definition space3 :: "char \<Rightarrow> char \<Rightarrow> char \<Rightarrow> bool" where
  "space3 a b c =
     ((a = CHR 0xE1 \<and> b = CHR 0x9A \<and> c = CHR 0x80) \<or>
      (a = CHR 0xE2 \<and> b = CHR 0x80 \<and>
         c \<in> set [CHR 0x80, CHR 0x81, CHR 0x82, CHR 0x83, CHR 0x84, CHR 0x85, CHR 0x86,
                  CHR 0x87, CHR 0x88, CHR 0x89, CHR 0x8A, CHR 0xA8, CHR 0xA9, CHR 0xAF]) \<or>
      (a = CHR 0xE2 \<and> b = CHR 0x81 \<and> c = CHR 0x9F) \<or>
      (a = CHR 0xE3 \<and> b = CHR 0x80 \<and> c = CHR 0x80) \<or>
      (a = CHR 0xEF \<and> b = CHR 0xBB \<and> c = CHR 0xBF))"

text \<open>Dropping the white space at the front of a string; with \<open>backwards\<close>, of a reversed
  string, in which the bytes of a character come last byte first.\<close>

fun dropSpaces :: "bool \<Rightarrow> string \<Rightarrow> string" where
  "dropSpaces backwards (a # b # c # rest) =
     (if space1 a then dropSpaces backwards (b # c # rest)
      else if (if backwards then space2 b a else space2 a b) then dropSpaces backwards (c # rest)
      else if (if backwards then space3 c b a else space3 a b c) then dropSpaces backwards rest
      else a # b # c # rest)"
| "dropSpaces backwards [a, b] =
     (if space1 a then dropSpaces backwards [b]
      else if (if backwards then space2 b a else space2 a b) then []
      else [a, b])"
| "dropSpaces backwards [a] = (if space1 a then [] else [a])"
| "dropSpaces backwards [] = []"

definition trim :: "string \<Rightarrow> string" where
  "trim s = rev (dropSpaces True (rev (dropSpaces False s)))"

text \<open>The in-memory snapshot seen as a JavaScript object (a property holding \<open>undefined\<close>
  reads like an absent one).\<close>

definition snapshotJson :: "snapshot \<Rightarrow> json" where
  "snapshotJson s =
     JObj ([(''nodes'', JArr (nodes s)), (''printers'', JArr (printers s))] @
           (case states s of None \<Rightarrow> [] | Some kvs \<Rightarrow> [(''states'', JObj kvs)]) @
           [(''updatedAt'', JNum (updatedAt s))])"

text \<open>What \<open>JSON.parse\<close> reads back from the text \<open>JSON.stringify\<close> wrote: a non-finite
  number is written as \<open>null\<close>.\<close>

fun stringifyParse :: "json \<Rightarrow> json" where
  "stringifyParse (JNum n) = (case n of Finite r \<Rightarrow> JNum (Finite r) | _ \<Rightarrow> JNull)"
| "stringifyParse (JArr xs) = JArr (map stringifyParse xs)"
| "stringifyParse (JObj kvs) = JObj (map (\<lambda>(k, v). (k, stringifyParse v)) kvs)"
| "stringifyParse v = v"

section \<open>The snapshot store (printerStore.ts)\<close>

definition sanitizeSnapshot :: "json \<Rightarrow> world \<Rightarrow> snapshot \<times> world" where
  "sanitizeSnapshot snap w =
     (let nodesSource = (case getField snap ''nodes'' of Some (JArr xs) \<Rightarrow> xs | _ \<Rightarrow> []);
          nodes' = filter isValidNode nodesSource;
          nodeIds = map (\<lambda>node. getField node ''id'') nodes';
          printersSource = (case getField snap ''printers'' of Some (JArr xs) \<Rightarrow> xs | _ \<Rightarrow> []);
          printers' = filter (\<lambda>entry. isValidPrinter entry nodeIds) printersSource;
          statesEntries = (case getField snap ''states'' of
                             Some v \<Rightarrow> if truthy v \<and> typeofObject v then entries v else []
                           | None \<Rightarrow> []);
          printerIds = map (\<lambda>printer. getField printer ''id'') printers';
          validStates = filter (\<lambda>(printerId, state).
                            Some (JStr printerId) \<in> set printerIds \<and> isValidState state)
                          statesEntries;
          states' = (if length validStates > 0 then Some validStates else None);
          (updatedAt', w') = (case getField snap ''updatedAt'' of
                                Some (JNum n) \<Rightarrow> (n, w)
                              | _ \<Rightarrow> (let (t, w1) = now w in (Finite (of_int t), w1)))
      in (\<lparr>nodes = nodes', printers = printers', states = states', updatedAt = updatedAt'\<rparr>,
          w'))"

definition readSnapshotFromDisk :: "world \<Rightarrow> snapshot \<times> world" where
  "readSnapshotFromDisk w =
     (case disk w of
        Holds parsed \<Rightarrow> sanitizeSnapshot parsed w
      | Missing \<Rightarrow>
          (let (t, w') = now w
           in (\<lparr>nodes = [], printers = [], states = None, updatedAt = Finite (of_int t)\<rparr>, w'))
      | Unreadable \<Rightarrow>
          (let (t, w') = now w
           in (\<lparr>nodes = [], printers = [], states = None, updatedAt = Finite (of_int t)\<rparr>, w')))"

text \<open>A failing write is modelled as leaving the file as it was.\<close>

definition writeSnapshotToDisk :: "snapshot \<Rightarrow> world \<Rightarrow> (failure + unit) \<times> world" where
  "writeSnapshotToDisk s w =
     (if \<not> writable w then (Inl WriteError, w)
      else
        let w1 = w\<lparr>disk := Holds (stringifyParse (snapshotJson s))\<rparr>;
            (t, w2) = now w1
        in (Inr (), w2\<lparr>cache := Some (s, t + CACHE_TTL_MS)\<rparr>))"

definition updateSnapshot ::
  "(snapshot \<Rightarrow> world \<Rightarrow> (failure + snapshot) \<times> world) \<Rightarrow> world \<Rightarrow> (failure + snapshot) \<times> world"
where
  "updateSnapshot mutator w =
     (let (current, w1) = readSnapshotFromDisk w;
          (mutated, w2) = mutator current w1
      in case mutated of
           Inl e \<Rightarrow> (Inl e, w2)
         | Inr m \<Rightarrow>
             (let (sanitized, w3) = sanitizeSnapshot (snapshotJson m) w2;
                  (t, w4) = now w3;
                  next = sanitized\<lparr>updatedAt := Finite (of_int t)\<rparr>;
                  (written, w5) = writeSnapshotToDisk next w4
              in case written of
                   Inl e \<Rightarrow> (Inl e, w5)
                 | Inr u \<Rightarrow> (Inr next, w5)))"


text \<open>The optional argument of \<open>getSnapshot\<close>; an absent field is \<open>None\<close>.\<close>

record defaults =
  defaultBaseUrl :: "string option"
  defaultPrinterName :: "string option"

definition maybeSeedDefaults ::
  "snapshot \<Rightarrow> defaults option \<Rightarrow> world \<Rightarrow> (failure + snapshot) \<times> world"
where
  "maybeSeedDefaults snapshot dflt w =
     (if length (nodes snapshot) > 0 \<and> length (printers snapshot) > 0 then (Inr snapshot, w)
      else
        let baseUrl = (case dflt of None \<Rightarrow> None | Some d \<Rightarrow> defaultBaseUrl d);
            trimmed = trim (case dflt of
                              None \<Rightarrow> []
                            | Some d \<Rightarrow> (case defaultPrinterName d of None \<Rightarrow> [] | Some n \<Rightarrow> n));
            printerName = (if trimmed \<noteq> [] then trimmed else ''Impresora principal'');
            (nowTs, w1) = now w
        in case baseUrl of
             None \<Rightarrow> (Inr snapshot, w1)
           | Some url \<Rightarrow>
               if url = [] then (Inr snapshot, w1)
               else
                 (let (principalNodeId, w2) = createId w1;
                      principalNode = JObj [(''id'', JStr principalNodeId),
                                            (''name'', JStr ''Nodo principal''),
                                            (''createdAt'', JNum (Finite (of_int nowTs)))];
                      (principalPrinterId, w3) = createId w2;
                      principalPrinter = JObj [(''id'', JStr principalPrinterId),
                                               (''name'', JStr printerName),
                                               (''baseUrl'', JStr url),
                                               (''nodeId'', JStr principalNodeId),
                                               (''createdAt'', JNum (Finite (of_int nowTs)))];
                      seeded = \<lparr>nodes = [principalNode], printers = [principalPrinter],
                                states = states snapshot, updatedAt = Finite (of_int nowTs)\<rparr>;
                      (written, w4) = writeSnapshotToDisk seeded w3
                  in (case written of
                        Inl e \<Rightarrow> (Inl e, w4)
                      | Inr u \<Rightarrow> (Inr seeded, w4))))"

definition getSnapshot :: "defaults option \<Rightarrow> world \<Rightarrow> (failure + snapshot) \<times> world" where
  "getSnapshot dflt w =
     (let (hit, w1) = (case cache w of
                         None \<Rightarrow> (None, w)
                       | Some (cached, expiresAt) \<Rightarrow>
                           (let (t, w') = now w
                            in (if expiresAt > t then Some cached else None, w')))
      in case hit of
           Some cached \<Rightarrow> (Inr cached, w1)
         | None \<Rightarrow>
             (let (snapshot, w2) = readSnapshotFromDisk w1;
                  (seeded, w3) = maybeSeedDefaults snapshot dflt w2
              in case seeded of
                   Inl e \<Rightarrow> (Inl e, w3)
                 | Inr snapshot' \<Rightarrow>
                     (let (t, w4) = now w3
                      in (Inr snapshot', w4\<lparr>cache := Some (snapshot', t + CACHE_TTL_MS)\<rparr>))))"

text \<open>The argument of \<open>registerPrinter\<close>.\<close>

record registration =
  name :: string
  baseUrl :: string
  nodeId :: "string option"
  nodeName :: "string option"

text \<open>The closure \<open>registerPrinter\<close> passes to \<open>updateSnapshot\<close>, with the trimmed name
  and base URL it captures. \<open>existing\<close> is \<open>input.nodeId\<close> when \<open>nodeExists\<close> holds, and
  \<open>None\<close> otherwise.\<close>

definition registerPrinterMutator ::
  "registration \<Rightarrow> string \<Rightarrow> string \<Rightarrow> snapshot \<Rightarrow> world \<Rightarrow> (failure + snapshot) \<times> world"
where
  "registerPrinterMutator input name' baseUrl' current w =
     (let existing = (case nodeId input of
                        None \<Rightarrow> None
                      | Some target \<Rightarrow>
                          if target \<noteq> [] \<and>
                             (\<exists>node \<in> set (nodes current). getField node ''id'' = Some (JStr target))
                          then Some target else None);
          created =
            (case existing of
               Some targetNodeId \<Rightarrow> Inr (nodes current, targetNodeId, w)
             | None \<Rightarrow>
                 (case map_option trim (nodeName input) of
                    None \<Rightarrow>
                      Inl (Error (''El nodo de destino no es v'' @ [CHR 0xC3, CHR 0xA1] @ ''lido.''))
                  | Some nodeName' \<Rightarrow>
                      if nodeName' = [] then
                        Inl (Error (''El nodo de destino no es v'' @ [CHR 0xC3, CHR 0xA1] @ ''lido.''))
                      else
                        (let (newNodeId, w1) = createId w;
                             (t, w2) = now w1;
                             newNode = JObj [(''id'', JStr newNodeId),
                                             (''name'', JStr nodeName'),
                                             (''createdAt'', JNum (Finite (of_int t)))]
                         in Inr (nodes current @ [newNode], newNodeId, w2))))
      in case created of
           Inl e \<Rightarrow> (Inl e, w)
         | Inr (nodes', targetNodeId, w2) \<Rightarrow>
             (let (printerId, w3) = createId w2;
                  (t, w4) = now w3;
                  printer = JObj [(''id'', JStr printerId),
                                  (''name'', JStr name'),
                                  (''baseUrl'', JStr baseUrl'),
                                  (''nodeId'', JStr targetNodeId),
                                  (''createdAt'', JNum (Finite (of_int t)))];
                  printers' = printers current @ [printer];
                  states' = (case states current of
                               None \<Rightarrow> None
                             | Some kvs \<Rightarrow>
                                 Some (case map_of kvs printerId of
                                         Some v \<Rightarrow> if truthy v then AList.delete printerId kvs else kvs
                                       | None \<Rightarrow> kvs))
              in (Inr \<lparr>nodes = nodes', printers = printers', states = states',
                       updatedAt = updatedAt current\<rparr>, w4)))"

definition registerPrinter :: "registration \<Rightarrow> world \<Rightarrow> (failure + snapshot) \<times> world" where
  "registerPrinter input w =
     (let name' = trim (name input);
          baseUrl' = trim (baseUrl input)
      in if name' = [] then (Inl (Error ''El nombre de la impresora es obligatorio.''), w)
         else if baseUrl' = [] then (Inl (Error ''La URL base es obligatoria.''), w)
         else updateSnapshot (registerPrinterMutator input name' baseUrl') w)"


definition removePrinterMutator ::
  "string \<Rightarrow> snapshot \<Rightarrow> world \<Rightarrow> (failure + snapshot) \<times> world"
where
  "removePrinterMutator printerId current w =
     (let printers' = filter (\<lambda>printer. getField printer ''id'' \<noteq> Some (JStr printerId))
                        (printers current)
      in if length printers' = length (printers current) then
           (Inl (Error ''La impresora indicada no existe.''), w)
         else
           (let states' = (case states current of
                             None \<Rightarrow> None
                           | Some kvs \<Rightarrow> Some (AList.delete printerId kvs))
            in (Inr \<lparr>nodes = nodes current, printers = printers', states = states',
                     updatedAt = updatedAt current\<rparr>, w)))"

definition removePrinter :: "string \<Rightarrow> world \<Rightarrow> (failure + snapshot) \<times> world" where
  "removePrinter printerId w =
     (if printerId = [] then (Inl (Error ''Se requiere el identificador de la impresora.''), w)
      else updateSnapshot (removePrinterMutator printerId) w)"

text \<open>The loop of \<open>removeNode\<close> over \<open>Object.keys(states)\<close>, taken before the loop starts.\<close>

fun pruneStates :: "json list \<Rightarrow> string list \<Rightarrow> (string \<times> json) list \<Rightarrow> (string \<times> json) list" where
  "pruneStates remaining [] sts = sts"
| "pruneStates remaining (printerId # rest) sts =
     pruneStates remaining rest
       (if \<not> (\<exists>printer \<in> set remaining. getField printer ''id'' = Some (JStr printerId))
        then AList.delete printerId sts
        else sts)"

definition removeNodeMutator ::
  "string \<Rightarrow> snapshot \<Rightarrow> world \<Rightarrow> (failure + snapshot) \<times> world"
where
  "removeNodeMutator nodeId' current w =
     (let nodes' = filter (\<lambda>node. getField node ''id'' \<noteq> Some (JStr nodeId')) (nodes current)
      in if length nodes' = length (nodes current) then
           (Inl (Error ''El nodo indicado no existe.''), w)
         else
           (let printers' = filter (\<lambda>printer. getField printer ''nodeId'' \<noteq> Some (JStr nodeId'))
                              (printers current);
                states' = (case states current of
                             None \<Rightarrow> None
                           | Some kvs \<Rightarrow>
                               (let pruned = pruneStates printers' (map fst kvs) kvs
                                in if length pruned = 0 then None else Some pruned))
            in (Inr \<lparr>nodes = nodes', printers = printers', states = states',
                     updatedAt = updatedAt current\<rparr>, w)))"

definition removeNode :: "string \<Rightarrow> world \<Rightarrow> (failure + snapshot) \<times> world" where
  "removeNode nodeId' w =
     (if nodeId' = [] then (Inl (Error ''Se requiere el identificador del nodo.''), w)
      else updateSnapshot (removeNodeMutator nodeId') w)"

text \<open>
  The assignment \<open>states[printerId] = summary\<close>. On an object that has no own property
  \<open>__proto__\<close>, assigning to that name runs the setter inherited from \<open>Object.prototype\<close>,
  which replaces the prototype and adds no own property; an own property of that name
  (as \<open>JSON.parse\<close>, \<open>Object.fromEntries\<close> and the spread create it) is overwritten like
  any other. Every other key is stored.
\<close>

definition assign :: "string \<Rightarrow> json \<Rightarrow> (string \<times> json) list \<Rightarrow> (string \<times> json) list" where
  "assign k v obj =
     (if k = ''__proto__'' \<and> k \<notin> fst ` set obj then obj else AList.update k v obj)"

text \<open>The loop of \<open>upsertPrinterStates\<close> over \<open>Object.entries(entries)\<close>.\<close>

fun mergeStates ::
  "json option list \<Rightarrow> (string \<times> json) list \<Rightarrow> (string \<times> json) list \<Rightarrow> (string \<times> json) list"
where
  "mergeStates activePrinterIds [] sts = sts"
| "mergeStates activePrinterIds ((printerId, summary) # rest) sts =
     (if Some (JStr printerId) \<notin> set activePrinterIds \<or> \<not> isValidState summary
      then mergeStates activePrinterIds rest sts
      else mergeStates activePrinterIds rest (assign printerId summary sts))"

definition upsertPrinterStatesMutator ::
  "(string \<times> json) list \<Rightarrow> snapshot \<Rightarrow> world \<Rightarrow> (failure + snapshot) \<times> world"
where
  "upsertPrinterStatesMutator input current w =
     (let activePrinterIds = map (\<lambda>printer. getField printer ''id'') (printers current);
          sts = (case states current of None \<Rightarrow> [] | Some kvs \<Rightarrow> kvs);
          merged = mergeStates activePrinterIds input sts
      in (Inr \<lparr>nodes = nodes current, printers = printers current,
               states = (if length merged > 0 then Some merged else None),
               updatedAt = updatedAt current\<rparr>, w))"

text \<open>The argument is the list of own properties of the \<open>entries\<close> object.\<close>

definition upsertPrinterStates ::
  "(string \<times> json) list \<Rightarrow> world \<Rightarrow> (failure + snapshot) \<times> world"
where
  "upsertPrinterStates input w = updateSnapshot (upsertPrinterStatesMutator input) w"

definition clearCache :: "world \<Rightarrow> world" where
  "clearCache w = w\<lparr>cache := None\<rparr>"

text \<open>The operations of the store that return a snapshot, as one type.\<close>

datatype operation =
    GetSnapshot "defaults option"
  | RegisterPrinter registration
  | RemovePrinter string
  | RemoveNode string
  | UpsertPrinterStates "(string \<times> json) list"

fun perform :: "operation \<Rightarrow> world \<Rightarrow> (failure + snapshot) \<times> world" where
  "perform (GetSnapshot dflt) w = getSnapshot dflt w"
| "perform (RegisterPrinter input) w = registerPrinter input w"
| "perform (RemovePrinter printerId) w = removePrinter printerId w"
| "perform (RemoveNode nodeId') w = removeNode nodeId' w"
| "perform (UpsertPrinterStates input) w = upsertPrinterStates input w"

section \<open>Properties of snapshots and histories\<close>

definition nodeIdsOf :: "snapshot \<Rightarrow> json option list" where
  "nodeIdsOf s = map (\<lambda>node. getField node ''id'') (nodes s)"

definition printerIdsOf :: "snapshot \<Rightarrow> json option list" where
  "printerIdsOf s = map (\<lambda>printer. getField printer ''id'') (printers s)"

definition stateKeys :: "snapshot \<Rightarrow> string list" where
  "stateKeys s = (case states s of None \<Rightarrow> [] | Some kvs \<Rightarrow> map fst kvs)"

definition stateOf :: "snapshot \<Rightarrow> string \<Rightarrow> json option" where
  "stateOf s printerId = (case states s of None \<Rightarrow> None | Some kvs \<Rightarrow> map_of kvs printerId)"

text \<open>Every printer's \<open>nodeId\<close> is the id of a node of the snapshot, and every key of the
  state map is the id of a printer of the snapshot.\<close>

definition referencesResolve :: "snapshot \<Rightarrow> bool" where
  "referencesResolve s =
     ((\<forall>printer \<in> set (printers s).
          isString (getField printer ''nodeId'') \<and> getField printer ''nodeId'' \<in> set (nodeIdsOf s)) \<and>
      (\<forall>printerId \<in> set (stateKeys s). Some (JStr printerId) \<in> set (printerIdsOf s)))"

text \<open>The ids of the nodes are pairwise distinct, and so are the ids of the printers.\<close>

definition idsDistinct :: "snapshot \<Rightarrow> bool" where
  "idsDistinct s = (distinct (nodeIdsOf s) \<and> distinct (printerIdsOf s))"

text \<open>The ids \<open>createId\<close> has returned between a state of the environment and a later
  one.\<close>

definition generatedIds :: "world \<Rightarrow> world \<Rightarrow> string list" where
  "generatedIds w w' = map (uuids w) [drawn w ..< drawn w']"

text \<open>What the validity filters let through: the shape \<open>sanitizeSnapshot\<close> gives a snapshot.\<close>

definition sanitized :: "snapshot \<Rightarrow> bool" where
  "sanitized s =
     ((\<forall>node \<in> set (nodes s). isValidNode node) \<and>
      (\<forall>printer \<in> set (printers s). isValidPrinter printer (nodeIdsOf s)) \<and>
      (case states s of
         None \<Rightarrow> True
       | Some kvs \<Rightarrow>
           kvs \<noteq> [] \<and>
           (\<forall>(printerId, state) \<in> set kvs.
              Some (JStr printerId) \<in> set (printerIdsOf s) \<and> isValidState state)))"

text \<open>
  A history of the server process: calls of the store's operations, calls of
  \<open>clearCache\<close>, and changes made to the file (or to its permissions) from outside the
  store. \<open>returned\<close> collects the snapshots the calls of a history return.
\<close>

datatype event = Call operation | ClearCache | Outside store_file bool

fun react :: "event \<Rightarrow> world \<Rightarrow> (failure + snapshot) option \<times> world" where
  "react (Call op) w = (let (r, w') = perform op w in (Some r, w'))"
| "react ClearCache w = (None, clearCache w)"
| "react (Outside f ok) w = (None, w\<lparr>disk := f, writable := ok\<rparr>)"

fun returned :: "event list \<Rightarrow> world \<Rightarrow> snapshot list" where
  "returned [] w = []"
| "returned (e # es) w =
     (case react e w of
        (Some (Inr s), w') \<Rightarrow> s # returned es w'
      | (other, w') \<Rightarrow> returned es w')"

text \<open>The cached snapshot, if there is one, satisfies a property.\<close>

definition cacheHolds :: "(snapshot \<Rightarrow> bool) \<Rightarrow> world \<Rightarrow> bool" where
  "cacheHolds P w = (case cache w of None \<Rightarrow> True | Some (cached, expiresAt) \<Rightarrow> P cached)"


text \<open>The cache holds a snapshot that has not expired at the next reading of the clock.\<close>

definition cacheFresh :: "world \<Rightarrow> bool" where
  "cacheFresh w =
     (case cache w of None \<Rightarrow> False | Some (cached, expiresAt) \<Rightarrow> expiresAt > clock w (ticks w))"

section \<open>Deriving the display state (client state synchronizer)\<close>

datatype StateVariant = VPrinting | VIdle | VPaused | VComplete | VError | VUnknown

record StateDisplay =
  label :: string
  variant :: StateVariant

text \<open>
  \<open>String.prototype.toLowerCase\<close> on the ASCII letters; the bytes of other characters
  are left as they are. (Of the characters outside ASCII, only U+0130 and U+212A
  lower-case to text that contains an ASCII letter, and neither can complete one of the
  keywords below, so the tests for the keywords are those of the source.)
\<close>

definition toLowerChar :: "char \<Rightarrow> char" where
  "toLowerChar c =
     (if (65 :: nat) \<le> of_char c \<and> of_char c \<le> (90 :: nat)
      then char_of (of_char c + (32 :: nat)) else c)"

definition toLowerCase :: "string \<Rightarrow> string" where
  "toLowerCase s = map toLowerChar s"

fun startsWith :: "string \<Rightarrow> string \<Rightarrow> bool" where
  "startsWith s [] = True"
| "startsWith [] (c # cs) = False"
| "startsWith (x # xs) (c # cs) = (x = c \<and> startsWith xs cs)"

text \<open>\<open>String.prototype.includes\<close>\<close>

fun includes_str :: "string \<Rightarrow> string \<Rightarrow> bool" where
  "includes_str [] needle = (needle = [])"
| "includes_str (x # xs) needle = (startsWith (x # xs) needle \<or> includes_str xs needle)"

definition resolveStateDisplay :: "string option \<Rightarrow> StateDisplay" where
  "resolveStateDisplay raw =
     (case raw of
        None \<Rightarrow> \<lparr>label = ''Desconocido'', variant = VUnknown\<rparr>
      | Some r \<Rightarrow>
          if r = [] then \<lparr>label = ''Desconocido'', variant = VUnknown\<rparr>
          else
            let normalized = toLowerCase r
            in if includes_str normalized ''print'' then \<lparr>label = ''Imprimiendo'', variant = VPrinting\<rparr>
               else if includes_str normalized ''complete'' \<or> includes_str normalized ''done'' \<or>
                       includes_str normalized ''finish''
                    then \<lparr>label = ''Completado'', variant = VComplete\<rparr>
               else if includes_str normalized ''pause'' then \<lparr>label = ''Pausado'', variant = VPaused\<rparr>
               else if includes_str normalized ''standby'' \<or> includes_str normalized ''idle'' \<or>
                       includes_str normalized ''ready''
                    then \<lparr>label = ''Standby'', variant = VIdle\<rparr>
               else if includes_str normalized ''error'' \<or> includes_str normalized ''fault'' \<or>
                       includes_str normalized ''halt''
                    then \<lparr>label = ''Error'', variant = VError\<rparr>
               else \<lparr>label = r, variant = VUnknown\<rparr>)"

text \<open>
  The specification's wording of the derivation: a string contains a keyword, ignoring
  case, when some stretch of it equals the keyword up to the case of its letters; the
  variant is decided by the first group of keywords of which one is contained.
\<close>

definition containsIgnoringCase :: "string \<Rightarrow> string \<Rightarrow> bool" where
  "containsIgnoringCase s keyword =
     (\<exists>before stretch after.
        s = before @ stretch @ after \<and> map toLowerChar stretch = map toLowerChar keyword)"

definition specVariant :: "string option \<Rightarrow> StateVariant" where
  "specVariant raw =
     (case raw of
        None \<Rightarrow> VUnknown
      | Some r \<Rightarrow>
          if r = [] then VUnknown
          else if containsIgnoringCase r ''print'' then VPrinting
          else if containsIgnoringCase r ''complete'' \<or> containsIgnoringCase r ''done'' \<or>
                  containsIgnoringCase r ''finish'' then VComplete
          else if containsIgnoringCase r ''pause'' then VPaused
          else if containsIgnoringCase r ''standby'' \<or> containsIgnoringCase r ''idle'' \<or>
                  containsIgnoringCase r ''ready'' then VIdle
          else if containsIgnoringCase r ''error'' \<or> containsIgnoringCase r ''fault'' \<or>
                  containsIgnoringCase r ''halt'' then VError
          else VUnknown)"

section \<open>Normalizing progress\<close>

text \<open>
  Rounding to the nearest double (IEEE 754 binary64, ties to even). For \<open>x\<close> other than
  zero, \<open>exponentOf x\<close> is the integer \<open>e\<close> with \<open>2^e \<le> |x| < 2^(e+1)\<close>. The doubles around
  \<open>x\<close> are the integer multiples of \<open>ulpOf x\<close>: a significand of 53 bits, and the exponent
  of the smallest normal number for the subnormal ones. A result whose exponent exceeds
  1023 overflows to an infinity. The sign of zero is not represented: it changes neither
  a comparison, nor the clamped progress (\<open>Math.max(0, -0)\<close> is \<open>0\<close>), nor the JSON text of
  a number (\<open>JSON.stringify(-0)\<close> is \<open>0\<close>).
\<close>

definition roundHalfEven :: "real \<Rightarrow> int" where
  "roundHalfEven x =
     (let below = \<lfloor>x\<rfloor>; rest = x - of_int below
      in if rest < 1 / 2 then below
         else if 1 / 2 < rest then below + 1
         else if even below then below else below + 1)"

definition exponentOf :: "real \<Rightarrow> int" where
  "exponentOf x =
     (let a = \<bar>x\<bar>
      in if 1 \<le> a then bitlen \<lfloor>a\<rfloor> - 1 else - bitlen (\<lceil>1 / a\<rceil> - 1))"

definition ulpOf :: "real \<Rightarrow> real" where
  "ulpOf x = 2 powi (max (exponentOf x) (- 1022) - 52)"

definition nearestDouble :: "real \<Rightarrow> real" where
  "nearestDouble x = (if x = 0 then 0 else of_int (roundHalfEven (x / ulpOf x)) * ulpOf x)"

definition toDouble :: "real \<Rightarrow> number" where
  "toDouble x =
     (let r = nearestDouble x
      in if r \<noteq> 0 \<and> 1023 < exponentOf r then (if 0 < x then PosInfinity else NegInfinity)
         else Finite r)"

text \<open>Arithmetic and comparison of JavaScript numbers.\<close>

fun isFinite :: "number \<Rightarrow> bool" where
  "isFinite (Finite r) = True"
| "isFinite n = False"

definition lessEq :: "number \<Rightarrow> number \<Rightarrow> bool" where
  "lessEq a b =
     (case (a, b) of
        (Finite x, Finite y) \<Rightarrow> x \<le> y
      | (NaN, y) \<Rightarrow> False
      | (x, NaN) \<Rightarrow> False
      | (NegInfinity, y) \<Rightarrow> True
      | (x, PosInfinity) \<Rightarrow> True
      | (x, y) \<Rightarrow> False)"

fun signOf :: "number \<Rightarrow> int" where
  "signOf (Finite r) = (if r > 0 then 1 else if r < 0 then - 1 else 0)"
| "signOf PosInfinity = 1"
| "signOf NegInfinity = - 1"
| "signOf NaN = 0"

definition times_num :: "number \<Rightarrow> number \<Rightarrow> number" where
  "times_num a b =
     (case (a, b) of
        (Finite x, Finite y) \<Rightarrow> toDouble (x * y)
      | (NaN, y) \<Rightarrow> NaN
      | (x, NaN) \<Rightarrow> NaN
      | (x, y) \<Rightarrow> (if signOf a * signOf b > 0 then PosInfinity
                   else if signOf a * signOf b < 0 then NegInfinity
                   else NaN))"

definition mathMin :: "number \<Rightarrow> number \<Rightarrow> number" where
  "mathMin a b = (if a = NaN \<or> b = NaN then NaN else if lessEq a b then a else b)"

definition mathMax :: "number \<Rightarrow> number \<Rightarrow> number" where
  "mathMax a b = (if a = NaN \<or> b = NaN then NaN else if lessEq a b then b else a)"

text \<open>
  \<open>buildNumber\<close> and \<open>buildProgress\<close> of the printer-overview proxy. The value is a field
  of the upstream payload (\<open>None\<close> is \<open>undefined\<close>); the conversion \<open>Number(string)\<close> of
  the platform is a parameter.
\<close>

definition buildNumber :: "(string \<Rightarrow> number) \<Rightarrow> json option \<Rightarrow> number option" where
  "buildNumber toNumber value =
     (case value of
        None \<Rightarrow> None
      | Some JNull \<Rightarrow> None
      | Some (JNum n) \<Rightarrow> if isFinite n then Some n else None
      | Some (JStr s) \<Rightarrow>
          (let trimmed = trim s
           in if trimmed = [] then None
              else (let parsed = toNumber trimmed
                    in if isFinite parsed then Some parsed else None))
      | Some other \<Rightarrow> None)"

definition buildProgress :: "(string \<Rightarrow> number) \<Rightarrow> json option \<Rightarrow> number option" where
  "buildProgress toNumber value =
     (case buildNumber toNumber value of
        None \<Rightarrow> None
      | Some num \<Rightarrow>
          (let normalized = (if lessEq num (Finite 1) then times_num num (Finite 100) else num)
           in Some (mathMax (Finite 0) (mathMin (Finite 100) normalized))))"

text \<open>\<open>resolveProgress\<close> of the client; \<open>None\<close> is \<open>null\<close> or \<open>undefined\<close>.\<close>

definition resolveProgress :: "number option \<Rightarrow> number option" where
  "resolveProgress value =
     (case value of
        None \<Rightarrow> None
      | Some n \<Rightarrow>
          if n = NaN then None
          else (let progress = (if lessEq n (Finite 1) then times_num n (Finite 100) else n)
                in Some (mathMax (Finite 0) (mathMin (Finite 100) progress))))"

text \<open>The normalization as the specification words it, on a finite value: a value of at
  most 1 times 100, a larger value as it is, clamped into \<open>[0,100]\<close>. The product is the
  one of doubles.\<close>

definition specProgress :: "real \<Rightarrow> real" where
  "specProgress r = max 0 (min 100 (if r \<le> 1 then nearestDouble (r * 100) else r))"

section \<open>The upstream proxies (printer-overview and printer-console)\<close>

text \<open>
  The upstream call is the environment of a proxy. It is described by what it does when
  the handler leaves it alone: the time in milliseconds after which the exchange
  (response and body) is over, \<open>None\<close> when it never is, and how it ends: with a response,
  or with a rejection carrying an error message (a refused connection, or a limit that
  the runtime itself puts on a request). The body of a response is given by what
  \<open>response.json()\<close> does with it: it throws (\<open>Inl\<close>, with the message) or yields a value.
\<close>

record response =
  status :: nat
  parsedBody :: "string + json"

datatype settled = Responds response | Rejects string

record upstream =
  settlesAfter :: "nat option"
  outcome :: settled

text \<open>The message of the error \<open>fetch\<close> rejects with when its signal is aborted (Node's).\<close>

definition abortMessage :: string where
  "abortMessage = ''This operation was aborted''"

text \<open>
  \<open>fetch\<close> with an optional abort after a number of milliseconds (the
  \<open>AbortController\<close> and \<open>setTimeout\<close> of a handler): \<open>None\<close> when the call never settles.
\<close>

definition fetch :: "nat option \<Rightarrow> upstream \<Rightarrow> settled option" where
  "fetch abortAfter up =
     (case abortAfter of
        None \<Rightarrow> (case settlesAfter up of None \<Rightarrow> None | Some t \<Rightarrow> Some (outcome up))
      | Some limit \<Rightarrow>
          (case settlesAfter up of
             None \<Rightarrow> Some (Rejects abortMessage)
           | Some t \<Rightarrow> if t < limit then Some (outcome up) else Some (Rejects abortMessage)))"

text \<open>\<open>response.ok\<close>\<close>

definition ok :: "response \<Rightarrow> bool" where
  "ok r = (200 \<le> status r \<and> status r \<le> 299)"

text \<open>What a handler answers: the HTTP status and the JSON body.\<close>

record reply =
  code :: nat
  body :: json

definition failure :: "nat \<Rightarrow> string \<Rightarrow> reply" where
  "failure c message = \<lparr>code = c, body = JObj [(''ok'', JBool False), (''error'', JStr message)]\<rparr>"

text \<open>
  \<open>json(data, { status })\<close> of SvelteKit builds a \<open>Response\<close> with a body. The constructor
  throws a \<open>RangeError\<close> for a status outside 200 to 599 and a \<open>TypeError\<close> for a status
  that admits no body (101, 103, 204, 205 and 304); \<open>Inl\<close> is the message of the error
  (Node's). The handlers call it with the upstream's status where the upstream's answer
  is not ok; their other calls pass 200, 400, 502 or 504.
\<close>

definition nullBodyStatus :: "nat \<Rightarrow> bool" where
  "nullBodyStatus c = (c \<in> {101, 103, 204, 205, 304})"

definition jsonReply :: "nat \<Rightarrow> json \<Rightarrow> string + reply" where
  "jsonReply c data =
     (if c < 200 \<or> 599 < c then
        Inl (''init['' @ [CHR 0x22] @ ''status'' @ [CHR 0x22] @
             ''] must be in the range of 200 to 599, inclusive.'')
      else if nullBodyStatus c then
        Inl (''Response constructor: Invalid response status code '' @ decimal c)
      else Inr \<lparr>code = c, body = data\<rparr>)"

text \<open>Optional chaining \<open>v?.k\<close> and the nullish coalescing \<open>a ?? b\<close>.\<close>

definition chain :: "json option \<Rightarrow> string \<Rightarrow> json option" where
  "chain v k = (case v of None \<Rightarrow> None | Some JNull \<Rightarrow> None | Some obj \<Rightarrow> getField obj k)"

definition orElse :: "'a option \<Rightarrow> 'a option \<Rightarrow> 'a option" where
  "orElse a b = (case a of None \<Rightarrow> b | Some x \<Rightarrow> Some x)"

definition nullish :: "json option \<Rightarrow> json option" where
  "nullish v = (case v of Some JNull \<Rightarrow> None | other \<Rightarrow> other)"

definition stringOrNull :: "json option \<Rightarrow> string option" where
  "stringOrNull v = (case v of Some (JStr s) \<Rightarrow> Some s | other \<Rightarrow> None)"

definition numberJson :: "number option \<Rightarrow> json" where
  "numberJson v = (case v of None \<Rightarrow> JNull | Some n \<Rightarrow> JNum n)"

definition stringJson :: "string option \<Rightarrow> json" where
  "stringJson v = (case v of None \<Rightarrow> JNull | Some s \<Rightarrow> JStr s)"

text \<open>The \<open>data\<close> object the printer-overview proxy builds from the upstream payload.\<close>

definition overviewData :: "(string \<Rightarrow> number) \<Rightarrow> json \<Rightarrow> json" where
  "overviewData toNumber payload =
     (let status' = orElse (nullish (chain (chain (Some payload) ''result'') ''status'')) (Some (JObj []));
          heaterBed = orElse (nullish (chain status' ''heater_bed'')) (Some (JObj []));
          heaterExtruder = orElse (nullish (chain status' ''extruder''))
                             (orElse (nullish (chain status' ''heater_extruder'')) (Some (JObj [])));
          toolhead = orElse (nullish (chain status' ''toolhead'')) (Some (JObj []));
          motionReport = orElse (nullish (chain status' ''motion_report'')) (Some (JObj []));
          displayStatus = orElse (nullish (chain status' ''display_status'')) (Some (JObj []));
          printStats = orElse (nullish (chain status' ''print_stats'')) (Some (JObj []));
          motionSpeed = orElse (buildNumber toNumber (chain motionReport ''live_velocity''))
                          (orElse (buildNumber toNumber (chain printStats ''print_speed''))
                                  (buildNumber toNumber (chain toolhead ''velocity'')));
          rawState = orElse (stringOrNull (chain displayStatus ''state''))
                       (orElse (stringOrNull (chain printStats ''state'')) (Some ''desconocido''));
          rawMessage = orElse (stringOrNull (chain displayStatus ''message''))
                         (stringOrNull (chain printStats ''message''));
          rawProgress = orElse (buildProgress toNumber (chain displayStatus ''progress''))
                          (buildProgress toNumber (chain printStats ''progress''))
      in JObj [(''bed'', JObj [(''temperature'', numberJson (buildNumber toNumber (chain heaterBed ''temperature''))),
                               (''target'', numberJson (buildNumber toNumber (chain heaterBed ''target'')))]),
               (''hotend'', JObj [(''temperature'', numberJson (buildNumber toNumber (chain heaterExtruder ''temperature''))),
                                  (''target'', numberJson (buildNumber toNumber (chain heaterExtruder ''target'')))]),
               (''motion'', JObj [(''speed'', numberJson motionSpeed)]),
               (''print'', JObj [(''state'', stringJson rawState),
                                 (''message'', stringJson rawMessage),
                                 (''progress'', numberJson rawProgress),
                                 (''elapsedSeconds'', numberJson (buildNumber toNumber (chain printStats ''print_duration''))),
                                 (''totalSeconds'', numberJson (buildNumber toNumber (chain printStats ''total_duration'')))])])"

text \<open>
  The \<open>GET\<close> handler of printer-overview, from the result of \<open>resolveBaseUrl\<close> on (\<open>Inl\<close>
  the message it throws with): \<open>fetch\<close> is called without a signal. Whatever is thrown
  inside the \<open>try\<close> block, by \<open>fetch\<close>, by \<open>response.json()\<close> or by \<open>json\<close>, is answered
  with 502.
\<close>

definition overviewGET :: "(string \<Rightarrow> number) \<Rightarrow> string + string \<Rightarrow> upstream \<Rightarrow> reply option" where
  "overviewGET toNumber resolved up =
     (case resolved of
        Inl message \<Rightarrow> Some (failure 400 message)
      | Inr base \<Rightarrow>
          (case fetch None up of
             None \<Rightarrow> None
           | Some (Rejects message) \<Rightarrow> Some (failure 502 (''Moonraker request failed: '' @ message))
           | Some (Responds r) \<Rightarrow>
               if \<not> ok r then
                 (case jsonReply (status r)
                         (JObj [(''ok'', JBool False),
                                (''error'', JStr (''Moonraker responded with status '' @
                                                  decimal (status r)))]) of
                    Inl message \<Rightarrow> Some (failure 502 (''Moonraker request failed: '' @ message))
                  | Inr answer \<Rightarrow> Some answer)
               else
                 (case parsedBody r of
                    Inl message \<Rightarrow> Some (failure 502 (''Moonraker request failed: '' @ message))
                  | Inr payload \<Rightarrow>
                      Some \<lparr>code = 200,
                            body = JObj [(''ok'', JBool True), (''baseUrl'', JStr base),
                                         (''data'', overviewData toNumber payload)]\<rparr>)))"

text \<open>
  The \<open>GET\<close> handler of printer-console: the signal of \<open>fetch\<close> is aborted after 8000 ms,
  and an error whose message contains \<open>aborted\<close> is answered with 504 instead of 502.
\<close>

definition consoleEntries :: "json \<Rightarrow> json list" where
  "consoleEntries payload =
     (case chain (Some payload) ''gcode_store'' of
        Some (JArr xs) \<Rightarrow> xs
      | other \<Rightarrow> (case chain (chain (Some payload) ''result'') ''gcode_store'' of
                    Some (JArr ys) \<Rightarrow> ys
                  | other' \<Rightarrow> []))"

definition consoleGET :: "string + string \<Rightarrow> upstream \<Rightarrow> reply option" where
  "consoleGET resolved up =
     (case resolved of
        Inl message \<Rightarrow> Some (failure 400 message)
      | Inr resolvedBase \<Rightarrow>
          (case fetch (Some 8000) up of
             None \<Rightarrow> None
           | Some (Rejects message) \<Rightarrow>
               Some (failure (if includes_str message ''aborted'' then 504 else 502)
                             (''Moonraker request failed: '' @ message))
           | Some (Responds r) \<Rightarrow>
               if \<not> ok r then
                 (case jsonReply (status r)
                         (JObj [(''ok'', JBool False),
                                (''error'', JStr (''Moonraker responded with status '' @
                                                  decimal (status r)))]) of
                    Inl message \<Rightarrow>
                      Some (failure (if includes_str message ''aborted'' then 504 else 502)
                                    (''Moonraker request failed: '' @ message))
                  | Inr answer \<Rightarrow> Some answer)
               else
                 (case parsedBody r of
                    Inl message \<Rightarrow>
                      Some (failure (if includes_str message ''aborted'' then 504 else 502)
                                    (''Moonraker request failed: '' @ message))
                  | Inr payload \<Rightarrow>
                      Some \<lparr>code = 200,
                            body = JObj [(''ok'', JBool True), (''entries'', JArr (consoleEntries payload)),
                                         (''baseUrl'', JStr resolvedBase)]\<rparr>)))"

text \<open>An upstream that answers a valid, empty payload after a minute.\<close>

definition slowUpstream :: upstream where
  "slowUpstream = \<lparr>settlesAfter = Some 60000,
                    outcome = Responds \<lparr>status = 200, parsedBody = Inr (JObj [])\<rparr>\<rparr>"

section \<open>Example data\<close>

definition exampleNode :: json where
  "exampleNode = JObj [(''id'', JStr ''n1''), (''name'', JStr ''Taller''),
                       (''createdAt'', JNum (Finite 1))]"

definition examplePrinter :: json where
  "examplePrinter = JObj [(''id'', JStr ''p1''), (''name'', JStr ''Voron''),
                          (''baseUrl'', JStr ''http://10.0.0.5''), (''nodeId'', JStr ''n1''),
                          (''createdAt'', JNum (Finite 2))]"

text \<open>A printer whose node is not in the file.\<close>

definition orphanPrinter :: json where
  "orphanPrinter = JObj [(''id'', JStr ''p2''), (''name'', JStr ''Ender''),
                         (''baseUrl'', JStr ''http://10.0.0.6''), (''nodeId'', JStr ''gone''),
                         (''createdAt'', JNum (Finite 2))]"

definition exampleState :: json where
  "exampleState = JObj [(''label'', JStr ''Imprimiendo''), (''variant'', JStr ''printing''),
                        (''progress'', JNum (Finite 42)), (''error'', JNull),
                        (''updatedAt'', JNum (Finite 3)), (''message'', JNull)]"

definition exampleStored :: json where
  "exampleStored = JObj [(''nodes'', JArr [exampleNode]),
                         (''printers'', JArr [examplePrinter, orphanPrinter]),
                         (''states'', JObj [(''p1'', exampleState), (''p2'', exampleState)]),
                         (''updatedAt'', JNum (Finite 5))]"

definition exampleWorld :: world where
  "exampleWorld = \<lparr>disk = Holds exampleStored, writable = True, cache = None,
                    clock = (\<lambda>n. 1000 + int n), ticks = 0,
                    uuids = (\<lambda>n. ''id-'' @ decimal n), drawn = 0\<rparr>"

definition exampleSnapshot :: snapshot where
  "exampleSnapshot = \<lparr>nodes = [exampleNode], printers = [examplePrinter],
                       states = Some [(''p1'', exampleState)], updatedAt = Finite 5\<rparr>"

definition exampleRegistration :: registration where
  "exampleRegistration = \<lparr>name = '' Prusa '', baseUrl = ''http://10.0.0.7'',
                           nodeId = None, nodeName = Some ''Anexo''\<rparr>"

definition exampleHistory :: "event list" where
  "exampleHistory =
     [Call (RegisterPrinter exampleRegistration),
      Call (GetSnapshot None),
      Outside (Holds exampleStored) True,
      Call (UpsertPrinterStates [(''p2'', exampleState), (''p1'', exampleState)]),
      Call (RemoveNode ''n1'')]"

text \<open>The snapshot \<open>registerPrinter exampleRegistration\<close> returns in \<open>exampleWorld\<close>.\<close>

definition registeredSnapshot :: snapshot where
  "registeredSnapshot =
     \<lparr>nodes = [exampleNode,
                JObj [(''id'', JStr ''id-0''), (''name'', JStr ''Anexo''),
                      (''createdAt'', JNum (Finite 1000))]],
      printers = [examplePrinter,
                  JObj [(''id'', JStr ''id-1''), (''name'', JStr ''Prusa''),
                        (''baseUrl'', JStr ''http://10.0.0.7''), (''nodeId'', JStr ''id-0''),
                        (''createdAt'', JNum (Finite 1001))]],
      states = Some [(''p1'', exampleState)],
      updatedAt = Finite 1002\<rparr>"

text \<open>The environment after \<open>registerPrinter exampleRegistration\<close> in \<open>exampleWorld\<close>, and
  a registration on the node that call has created.\<close>

definition registeredWorld :: world where
  "registeredWorld = snd (registerPrinter exampleRegistration exampleWorld)"

definition secondRegistration :: registration where
  "secondRegistration = \<lparr>name = ''Mini'', baseUrl = ''http://10.0.0.8'',
                          nodeId = Some ''id-0'', nodeName = None\<rparr>"

text \<open>The snapshot \<open>registerPrinter secondRegistration\<close> returns in \<open>registeredWorld\<close>.\<close>

definition twiceRegistered :: snapshot where
  "twiceRegistered =
     \<lparr>nodes = nodes registeredSnapshot,
      printers = printers registeredSnapshot @
                 [JObj [(''id'', JStr ''id-2''), (''name'', JStr ''Mini''),
                        (''baseUrl'', JStr ''http://10.0.0.8''), (''nodeId'', JStr ''id-0''),
                        (''createdAt'', JNum (Finite 1004))]],
      states = Some [(''p1'', exampleState)],
      updatedAt = Finite 1005\<rparr>"

text \<open>A file in which two valid nodes share an id, and two valid printers share an id.\<close>

definition duplicateStored :: json where
  "duplicateStored =
     JObj [(''nodes'', JArr [exampleNode,
                             JObj [(''id'', JStr ''n1''), (''name'', JStr ''Copia''),
                                   (''createdAt'', JNum (Finite 4))]]),
           (''printers'', JArr [examplePrinter,
                                JObj [(''id'', JStr ''p1''), (''name'', JStr ''Clon''),
                                      (''baseUrl'', JStr ''http://10.0.0.9''),
                                      (''nodeId'', JStr ''n1''),
                                      (''createdAt'', JNum (Finite 4))]]),
           (''updatedAt'', JNum (Finite 5))]"

definition duplicateWorld :: world where
  "duplicateWorld = exampleWorld\<lparr>disk := Holds duplicateStored\<rparr>"

definition duplicateSnapshot :: snapshot where
  "duplicateSnapshot =
     \<lparr>nodes = [exampleNode,
                JObj [(''id'', JStr ''n1''), (''name'', JStr ''Copia''),
                      (''createdAt'', JNum (Finite 4))]],
      printers = [examplePrinter,
                  JObj [(''id'', JStr ''p1''), (''name'', JStr ''Clon''),
                        (''baseUrl'', JStr ''http://10.0.0.9''), (''nodeId'', JStr ''n1''),
                        (''createdAt'', JNum (Finite 4))]],
      states = None,
      updatedAt = Finite 5\<rparr>"

text \<open>A file holding a snapshot with no nodes, no printers and no states.\<close>

definition emptyStored :: json where
  "emptyStored = JObj [(''nodes'', JArr []), (''printers'', JArr [])]"

definition blankRegistration :: registration where
  "blankRegistration = \<lparr>name = ''  '', baseUrl = ''http://x'', nodeId = None, nodeName = None\<rparr>"

text \<open>The base URL \<open>getSnapshot\<close> is given for seeding: \<open>None\<close> when \<open>defaults\<close> or its
  \<open>baseUrl\<close> is absent.\<close>

definition seedUrl :: "defaults option \<Rightarrow> string option" where
  "seedUrl dflt = (case dflt of None \<Rightarrow> None | Some d \<Rightarrow> defaultBaseUrl d)"

text \<open>A file with one node and no printer, and defaults to seed from.\<close>

definition nodeOnlyStored :: json where
  "nodeOnlyStored = JObj [(''nodes'', JArr [exampleNode]), (''printers'', JArr []),
                          (''updatedAt'', JNum (Finite 5))]"

definition nodeOnlyWorld :: world where
  "nodeOnlyWorld = exampleWorld\<lparr>disk := Holds nodeOnlyStored\<rparr>"

definition exampleDefaults :: defaults where
  "exampleDefaults = \<lparr>defaultBaseUrl = Some ''http://10.0.0.5'', defaultPrinterName = Some ''Voron''\<rparr>"











text \<open>A file in which two printers on different nodes share the id \<open>p1\<close>, and the
  snapshot \<open>removeNode ''n1''\<close> returns for it.\<close>

definition secondNode :: json where
  "secondNode = JObj [(''id'', JStr ''n2''), (''name'', JStr ''Almacen''),
                      (''createdAt'', JNum (Finite 1))]"

definition twinPrinter :: json where
  "twinPrinter = JObj [(''id'', JStr ''p1''), (''name'', JStr ''Gemela''),
                       (''baseUrl'', JStr ''http://10.0.0.8''), (''nodeId'', JStr ''n2''),
                       (''createdAt'', JNum (Finite 2))]"

definition sharedIdStored :: json where
  "sharedIdStored = JObj [(''nodes'', JArr [exampleNode, secondNode]),
                          (''printers'', JArr [examplePrinter, twinPrinter]),
                          (''states'', JObj [(''p1'', exampleState)]),
                          (''updatedAt'', JNum (Finite 5))]"

definition sharedIdWorld :: world where
  "sharedIdWorld = exampleWorld\<lparr>disk := Holds sharedIdStored\<rparr>"

definition sharedIdRemoved :: snapshot where
  "sharedIdRemoved = \<lparr>nodes = [secondNode], printers = [twinPrinter],
                       states = Some [(''p1'', exampleState)], updatedAt = Finite 1000\<rparr>"

section \<open>Basic facts about the store\<close>

lemma now_fields:
  "fst (now w) = clock w (ticks w)"
  "cache (snd (now w)) = cache w"
  "disk (snd (now w)) = disk w"
  "writable (snd (now w)) = writable w"
  "uuids (snd (now w)) = uuids w"
  "drawn (snd (now w)) = drawn w"
  "clock (snd (now w)) = clock w"
  "ticks (snd (now w)) = Suc (ticks w)"
  by (simp_all add: now_def)

lemma createId_fields:
  "fst (createId w) = uuids w (drawn w)"
  "cache (snd (createId w)) = cache w"
  "disk (snd (createId w)) = disk w"
  "writable (snd (createId w)) = writable w"
  "uuids (snd (createId w)) = uuids w"
  "drawn (snd (createId w)) = Suc (drawn w)"
  "clock (snd (createId w)) = clock w"
  "ticks (snd (createId w)) = ticks w"
  by (simp_all add: createId_def)

lemma sanitize_nodes:
  "nodes (fst (sanitizeSnapshot snap w)) =
     filter isValidNode (case getField snap ''nodes'' of Some (JArr xs) \<Rightarrow> xs | _ \<Rightarrow> [])"
  by (simp add: sanitizeSnapshot_def Let_def split_beta)

lemma sanitize_printers:
  "printers (fst (sanitizeSnapshot snap w)) =
     filter (\<lambda>entry. isValidPrinter entry (nodeIdsOf (fst (sanitizeSnapshot snap w))))
       (case getField snap ''printers'' of Some (JArr xs) \<Rightarrow> xs | _ \<Rightarrow> [])"
  by (simp add: sanitizeSnapshot_def Let_def split_beta nodeIdsOf_def)

lemma sanitize_states:
  "states (fst (sanitizeSnapshot snap w)) =
     (let valid = filter (\<lambda>(printerId, state).
                      Some (JStr printerId) \<in> set (printerIdsOf (fst (sanitizeSnapshot snap w))) \<and>
                      isValidState state)
                    (case getField snap ''states'' of
                       Some v \<Rightarrow> if truthy v \<and> typeofObject v then entries v else []
                     | None \<Rightarrow> [])
      in if valid = [] then None else Some valid)"
  by (simp add: sanitizeSnapshot_def Let_def split_beta nodeIdsOf_def printerIdsOf_def)

lemma sanitize_world:
  "cache (snd (sanitizeSnapshot snap w)) = cache w"
  "disk (snd (sanitizeSnapshot snap w)) = disk w"
  "writable (snd (sanitizeSnapshot snap w)) = writable w"
  "uuids (snd (sanitizeSnapshot snap w)) = uuids w"
  "drawn (snd (sanitizeSnapshot snap w)) = drawn w"
  "clock (snd (sanitizeSnapshot snap w)) = clock w"
  by (simp_all add: sanitizeSnapshot_def Let_def split_beta now_def split: option.splits json.splits)

lemma sanitize_sanitized: "sanitized (fst (sanitizeSnapshot snap w))"
  unfolding sanitized_def
  apply (intro conjI)
    apply (simp add: sanitize_nodes)
   apply (subst sanitize_printers) apply simp
  apply (subst sanitize_states) apply (auto simp: Let_def)
  done


lemma sanitized_referencesResolve: "sanitized s \<Longrightarrow> referencesResolve s"
  by (auto simp: sanitized_def referencesResolve_def isValidPrinter_def stateKeys_def
           split: if_splits option.splits)

lemma getField_snapshotJson:
  "getField (snapshotJson m) ''nodes'' = Some (JArr (nodes m))"
  "getField (snapshotJson m) ''printers'' = Some (JArr (printers m))"
  "getField (snapshotJson m) ''states'' = map_option JObj (states m)"
  "getField (snapshotJson m) ''updatedAt'' = Some (JNum (updatedAt m))"
  by (simp_all add: snapshotJson_def split: option.splits)

lemma resanitize_nodes:
  "nodes (fst (sanitizeSnapshot (snapshotJson m) w)) = filter isValidNode (nodes m)"
  by (simp add: sanitize_nodes getField_snapshotJson)

lemma resanitize_printers:
  "printers (fst (sanitizeSnapshot (snapshotJson m) w)) =
     filter (\<lambda>entry. isValidPrinter entry (map (\<lambda>node. getField node ''id'') (filter isValidNode (nodes m))))
       (printers m)"
  by (simp add: sanitize_printers getField_snapshotJson nodeIdsOf_def resanitize_nodes)

lemma resanitize_states:
  "states (fst (sanitizeSnapshot (snapshotJson m) w)) =
     (let valid = filter (\<lambda>(printerId, state).
                      Some (JStr printerId) \<in> set (printerIdsOf (fst (sanitizeSnapshot (snapshotJson m) w))) \<and>
                      isValidState state)
                    (case states m of None \<Rightarrow> [] | Some kvs \<Rightarrow> kvs)
      in if valid = [] then None else Some valid)"
  by (subst sanitize_states) (simp add: getField_snapshotJson split: option.splits)

lemma resanitize_world: "snd (sanitizeSnapshot (snapshotJson m) w) = w"
  by (simp add: sanitizeSnapshot_def Let_def split_beta getField_snapshotJson)

lemma read_sanitized: "sanitized (fst (readSnapshotFromDisk w))"
proof (cases "disk w")
  case (Holds parsed)
  then show ?thesis by (simp add: readSnapshotFromDisk_def sanitize_sanitized)
qed (simp_all add: readSnapshotFromDisk_def split_beta sanitized_def)

lemma read_world:
  "cache (snd (readSnapshotFromDisk w)) = cache w"
  "disk (snd (readSnapshotFromDisk w)) = disk w"
  "writable (snd (readSnapshotFromDisk w)) = writable w"
  "uuids (snd (readSnapshotFromDisk w)) = uuids w"
  "drawn (snd (readSnapshotFromDisk w)) = drawn w"
  "clock (snd (readSnapshotFromDisk w)) = clock w"
  by (cases "disk w"; simp add: readSnapshotFromDisk_def split_beta sanitize_world now_fields)+

lemma write_ok:
  "writable w \<Longrightarrow> fst (writeSnapshotToDisk s w) = Inr ()"
  "writable w \<Longrightarrow> disk (snd (writeSnapshotToDisk s w)) = Holds (stringifyParse (snapshotJson s))"
  "writable w \<Longrightarrow> cache (snd (writeSnapshotToDisk s w)) = Some (s, clock w (ticks w) + CACHE_TTL_MS)"
  "writable (snd (writeSnapshotToDisk s w)) = writable w"
  "uuids (snd (writeSnapshotToDisk s w)) = uuids w"
  "drawn (snd (writeSnapshotToDisk s w)) = drawn w"
  "clock (snd (writeSnapshotToDisk s w)) = clock w"
  by (simp_all add: writeSnapshotToDisk_def Let_def split_beta now_def)

lemma write_fail:
  "\<not> writable w \<Longrightarrow> writeSnapshotToDisk s w = (Inl WriteError, w)"
  by (simp add: writeSnapshotToDisk_def)

text \<open>The snapshot an update returns is the mutator's result, sanitized and stamped.\<close>

lemma updateSnapshot_Inr:
  assumes "updateSnapshot mutator w = (Inr s, w')"
  shows "\<exists>m w2 t. mutator (fst (readSnapshotFromDisk w)) (snd (readSnapshotFromDisk w)) = (Inr m, w2) \<and>
           s = (fst (sanitizeSnapshot (snapshotJson m) w2))\<lparr>updatedAt := Finite (of_int t)\<rparr> \<and>
           writable w2 \<and>
           disk w' = Holds (stringifyParse (snapshotJson s)) \<and>
           (\<exists>e. cache w' = Some (s, e))"
proof -
  obtain r w2 where mut: "mutator (fst (readSnapshotFromDisk w)) (snd (readSnapshotFromDisk w)) = (r, w2)"
    by (cases "mutator (fst (readSnapshotFromDisk w)) (snd (readSnapshotFromDisk w))")
  show ?thesis
  proof (cases r)
    case (Inl e)
    with assms mut show ?thesis by (simp add: updateSnapshot_def split_beta)
  next
    case (Inr m)
    show ?thesis
    proof (cases "writable w2")
      case False
      with assms mut Inr show ?thesis
        by (simp add: updateSnapshot_def split_beta resanitize_world now_def write_fail)
    next
      case True
      with assms mut Inr show ?thesis
        by (auto simp add: updateSnapshot_def split_beta Let_def resanitize_world now_def write_ok)
    qed
  qed
qed


lemma ids_updatedAt [simp]:
  "nodeIdsOf (s\<lparr>updatedAt := t\<rparr>) = nodeIdsOf s"
  "printerIdsOf (s\<lparr>updatedAt := t\<rparr>) = printerIdsOf s"
  "stateKeys (s\<lparr>updatedAt := t\<rparr>) = stateKeys s"
  "stateOf (s\<lparr>updatedAt := t\<rparr>) = stateOf s"
  by (simp_all add: nodeIdsOf_def printerIdsOf_def stateKeys_def stateOf_def fun_eq_iff)

lemma referencesResolve_updatedAt [simp]:
  "referencesResolve (s\<lparr>updatedAt := t\<rparr>) = referencesResolve s"
  by (simp add: referencesResolve_def)

lemma sanitized_updatedAt [simp]: "sanitized (s\<lparr>updatedAt := t\<rparr>) = sanitized s"
  by (simp add: sanitized_def cong: option.case_cong)

lemma updateSnapshot_sanitized:
  assumes "updateSnapshot mutator w = (Inr s, w')"
  shows "sanitized s"
  using updateSnapshot_Inr [OF assms] by (auto simp: sanitize_sanitized)

lemma updateSnapshot_cache:
  assumes frame: "\<And>c v. cache (snd (mutator c v)) = cache v"
    and run: "updateSnapshot mutator w = (r, w')"
  shows "cache w' = cache w \<or> (\<exists>s e. r = Inr s \<and> cache w' = Some (s, e))"
proof (cases r)
  case (Inr s)
  with run updateSnapshot_Inr [of mutator w s w'] show ?thesis by auto
next
  case (Inl e)
  obtain q w2 where mut: "mutator (fst (readSnapshotFromDisk w)) (snd (readSnapshotFromDisk w)) = (q, w2)"
    by (cases "mutator (fst (readSnapshotFromDisk w)) (snd (readSnapshotFromDisk w))")
  have c2: "cache w2 = cache w"
    using frame [of "fst (readSnapshotFromDisk w)" "snd (readSnapshotFromDisk w)"] mut
    by (simp add: read_world)
  show ?thesis
  proof (cases q)
    case (Inl e')
    with run mut c2 show ?thesis by (simp add: updateSnapshot_def split_beta)
  next
    case (Inr m)
    show ?thesis
    proof (cases "writable w2")
      case True
      with run mut Inr Inl show ?thesis
        by (simp add: updateSnapshot_def split_beta Let_def resanitize_world now_def write_ok)
    next
      case False
      with run mut Inr c2 show ?thesis
        by (auto simp add: updateSnapshot_def split_beta Let_def resanitize_world now_def write_fail)
    qed
  qed
qed

lemma updateSnapshot_succeeds:
  assumes "mutator (fst (readSnapshotFromDisk w)) (snd (readSnapshotFromDisk w)) = (Inr m, w2)"
    and "writable w2"
  shows "\<exists>s w'. updateSnapshot mutator w = (Inr s, w') \<and>
           s = (fst (sanitizeSnapshot (snapshotJson m) w2))\<lparr>updatedAt := Finite (of_int (clock w2 (ticks w2)))\<rparr> \<and>
           disk w' = Holds (stringifyParse (snapshotJson s)) \<and>
           writable w' \<and> uuids w' = uuids w2 \<and> drawn w' = drawn w2 \<and> clock w' = clock w2"
  using assms
  by (simp add: updateSnapshot_def split_beta Let_def resanitize_world now_def write_ok)

lemma updateSnapshot_fails:
  assumes "mutator (fst (readSnapshotFromDisk w)) (snd (readSnapshotFromDisk w)) = (Inl e, w2)"
  shows "updateSnapshot mutator w = (Inl e, w2)"
  using assms by (simp add: updateSnapshot_def split_beta)

lemma registerPrinterMutator_cache:
  "cache (snd (registerPrinterMutator input n b c v)) = cache v"
  by (auto simp: registerPrinterMutator_def Let_def split_beta now_def createId_def
           split: sum.splits option.splits)

lemma removePrinterMutator_world: "snd (removePrinterMutator printerId c v) = v"
  by (simp add: removePrinterMutator_def Let_def)

lemma removeNodeMutator_world: "snd (removeNodeMutator nodeId' c v) = v"
  by (simp add: removeNodeMutator_def Let_def)

lemma upsertMutator_world: "snd (upsertPrinterStatesMutator input c v) = v"
  by (simp add: upsertPrinterStatesMutator_def Let_def)

lemma seed_resolves:
  assumes "referencesResolve snapshot"
    and "maybeSeedDefaults snapshot dflt w = (Inr s, w')"
  shows "referencesResolve s"
proof (cases "length (nodes snapshot) > 0 \<and> length (printers snapshot) > 0")
  case True
  with assms show ?thesis by (simp add: maybeSeedDefaults_def)
next
  case False
  with assms(1) have nopr: "stateKeys snapshot = []"
    by (cases "printers snapshot = []")
       (auto simp: referencesResolve_def nodeIdsOf_def printerIdsOf_def)
  from False assms(2) have "s = snapshot \<or>
      (\<exists>n p t. s = \<lparr>nodes = [n], printers = [p], states = states snapshot, updatedAt = t\<rparr> \<and>
         isString (getField p ''nodeId'') \<and> getField p ''nodeId'' = getField n ''id'')"
    by (auto simp: maybeSeedDefaults_def Let_def split_beta split: option.splits if_splits sum.splits)
  then show ?thesis
  proof
    assume "s = snapshot"
    with assms(1) show ?thesis by simp
  next
    assume "\<exists>n p t. s = \<lparr>nodes = [n], printers = [p], states = states snapshot, updatedAt = t\<rparr> \<and>
         isString (getField p ''nodeId'') \<and> getField p ''nodeId'' = getField n ''id''"
    then obtain n p t where s: "s = \<lparr>nodes = [n], printers = [p], states = states snapshot, updatedAt = t\<rparr>"
      and link: "isString (getField p ''nodeId'')" "getField p ''nodeId'' = getField n ''id''"
      by blast
    from s nopr have "stateKeys s = []" by (simp add: stateKeys_def)
    with s link show ?thesis
      by (simp add: referencesResolve_def nodeIdsOf_def)
  qed
qed

lemma seed_cache:
  assumes "maybeSeedDefaults snapshot dflt w = (r, w')"
  shows "cache w' = cache w \<or> (\<exists>s e. r = Inr s \<and> cache w' = Some (s, e))"
  using assms
  by (cases "writable w")
     (auto simp: maybeSeedDefaults_def Let_def split_beta now_def createId_def write_ok write_fail
           split: option.splits if_splits sum.splits)

lemma getSnapshot_hit:
  assumes "cacheFresh w"
  shows "\<exists>c e. cache w = Some (c, e) \<and> getSnapshot dflt w = (Inr c, snd (now w))"
  using assms
  by (auto simp: cacheFresh_def getSnapshot_def split_beta now_def split: option.splits)

lemma getSnapshot_miss:
  assumes "\<not> cacheFresh w"
  shows "getSnapshot dflt w =
     (let w1 = (if cache w = None then w else snd (now w));
          (snapshot, w2) = readSnapshotFromDisk w1;
          (seeded, w3) = maybeSeedDefaults snapshot dflt w2
      in case seeded of
           Inl e \<Rightarrow> (Inl e, w3)
         | Inr snapshot' \<Rightarrow>
             (Inr snapshot', (snd (now w3))\<lparr>cache := Some (snapshot', fst (now w3) + CACHE_TTL_MS)\<rparr>))"
  using assms
  by (auto simp: cacheFresh_def getSnapshot_def split_beta Let_def now_def split: option.splits sum.splits)

lemma getSnapshot_step:
  assumes inv: "cacheHolds referencesResolve w"
    and run: "getSnapshot dflt w = (r, w')"
  shows "cacheHolds referencesResolve w' \<and> (\<forall>s. r = Inr s \<longrightarrow> referencesResolve s)"
proof (cases "cacheFresh w")
  case True
  from getSnapshot_hit [OF True, of dflt] run inv show ?thesis
    by (auto simp: cacheHolds_def now_def)
next
  case False
  define w1 where "w1 = (if cache w = None then w else snd (now w))"
  define cur where "cur = fst (readSnapshotFromDisk w1)"
  define w2 where "w2 = snd (readSnapshotFromDisk w1)"
  obtain q w3 where seed: "maybeSeedDefaults cur dflt w2 = (q, w3)"
    by (cases "maybeSeedDefaults cur dflt w2")
  have c2: "cache w2 = cache w"
    by (simp add: w2_def w1_def read_world now_fields)
  have cur: "referencesResolve cur"
    by (simp add: cur_def read_sanitized sanitized_referencesResolve)
  have gs: "getSnapshot dflt w = (case q of Inl e \<Rightarrow> (Inl e, w3)
       | Inr s \<Rightarrow> (Inr s, (snd (now w3))\<lparr>cache := Some (s, fst (now w3) + CACHE_TTL_MS)\<rparr>))"
    unfolding getSnapshot_miss [OF False]
    using seed by (simp add: Let_def split_beta w1_def cur_def w2_def cong: sum.case_cong)
  show ?thesis
  proof (cases q)
    case (Inl e)
    with gs run have "r = Inl e" "w' = w3" by simp_all
    with seed_cache [OF seed] Inl c2 inv show ?thesis by (auto simp: cacheHolds_def)
  next
    case (Inr s)
    with seed_resolves [OF cur] seed have "referencesResolve s" by simp
    moreover from gs run Inr have "r = Inr s" "cache w' = Some (s, fst (now w3) + CACHE_TTL_MS)"
      by auto
    ultimately show ?thesis by (auto simp: cacheHolds_def)
  qed
qed

lemma update_step:
  assumes frame: "\<And>c v. cache (snd (mutator c v)) = cache v"
    and inv: "cacheHolds referencesResolve w"
    and run: "updateSnapshot mutator w = (r, w')"
  shows "cacheHolds referencesResolve w' \<and> (\<forall>s. r = Inr s \<longrightarrow> referencesResolve s)"
proof -
  have res: "\<forall>s. r = Inr s \<longrightarrow> referencesResolve s"
    using run updateSnapshot_sanitized sanitized_referencesResolve by blast
  from updateSnapshot_cache [of mutator w r w', OF frame run] inv res
  show ?thesis by (auto simp: cacheHolds_def)
qed

lemma perform_step:
  assumes inv: "cacheHolds referencesResolve w"
    and run: "perform op w = (r, w')"
  shows "cacheHolds referencesResolve w' \<and> (\<forall>s. r = Inr s \<longrightarrow> referencesResolve s)"
proof (cases op)
  case (GetSnapshot dflt)
  with run getSnapshot_step [OF inv] show ?thesis by simp
next
  case (RegisterPrinter input)
  show ?thesis
  proof (cases "trim (name input) = [] \<or> trim (baseUrl input) = []")
    case True
    with run RegisterPrinter inv show ?thesis
      by (auto simp: registerPrinter_def Let_def split: if_splits)
  next
    case False
    with run RegisterPrinter
    have "updateSnapshot (registerPrinterMutator input (trim (name input)) (trim (baseUrl input))) w = (r, w')"
      by (simp add: registerPrinter_def Let_def)
    from update_step [OF _ inv this] show ?thesis
      by (simp add: registerPrinterMutator_cache)
  qed
next
  case (RemovePrinter printerId)
  show ?thesis
  proof (cases "printerId = []")
    case True
    with run RemovePrinter inv show ?thesis by (auto simp: removePrinter_def)
  next
    case False
    with run RemovePrinter
    have "updateSnapshot (removePrinterMutator printerId) w = (r, w')"
      by (simp add: removePrinter_def)
    from update_step [OF _ inv this] show ?thesis
      by (simp add: removePrinterMutator_world)
  qed
next
  case (RemoveNode nodeId')
  show ?thesis
  proof (cases "nodeId' = []")
    case True
    with run RemoveNode inv show ?thesis by (auto simp: removeNode_def)
  next
    case False
    with run RemoveNode
    have "updateSnapshot (removeNodeMutator nodeId') w = (r, w')"
      by (simp add: removeNode_def)
    from update_step [OF _ inv this] show ?thesis
      by (simp add: removeNodeMutator_world)
  qed
next
  case (UpsertPrinterStates input)
  with run have "updateSnapshot (upsertPrinterStatesMutator input) w = (r, w')"
    by (simp add: upsertPrinterStates_def)
  from update_step [OF _ inv this] show ?thesis
    by (simp add: upsertMutator_world)
qed

lemma returned_resolve:
  "cacheHolds referencesResolve w \<Longrightarrow> s \<in> set (returned es w) \<Longrightarrow> referencesResolve s"
proof (induction es arbitrary: w)
  case Nil
  then show ?case by simp
next
  case (Cons e es)
  show ?case
  proof (cases e)
    case (Call op)
    obtain r w' where p: "perform op w = (r, w')" by (cases "perform op w")
    from perform_step [OF Cons.prems(1) p]
    have inv': "cacheHolds referencesResolve w'" and res: "\<forall>s. r = Inr s \<longrightarrow> referencesResolve s"
      by simp_all
    from Cons.prems(2) Call p have "(\<exists>s'. r = Inr s' \<and> s = s') \<or> s \<in> set (returned es w')"
      by (cases r) auto
    with res Cons.IH [OF inv'] show ?thesis by auto
  next
    case ClearCache
    with Cons.prems(2) have "s \<in> set (returned es (clearCache w))" by simp
    moreover have "cacheHolds referencesResolve (clearCache w)"
      by (simp add: cacheHolds_def clearCache_def)
    ultimately show ?thesis using Cons.IH by blast
  next
    case (Outside f ok)
    with Cons.prems(2) have "s \<in> set (returned es (w\<lparr>disk := f, writable := ok\<rparr>))" by simp
    moreover from Cons.prems(1) have "cacheHolds referencesResolve (w\<lparr>disk := f, writable := ok\<rparr>)"
      by (simp add: cacheHolds_def)
    ultimately show ?thesis using Cons.IH by blast
  qed
qed

section \<open>Referential integrity of returned snapshots\<close>

text \<open>
  C1. Along every history of a server process that starts with no cached snapshot (the
  module is loaded with \<open>cache = null\<close>), whatever is done to the file from outside, every
  snapshot returned by \<open>getSnapshot\<close>, \<open>registerPrinter\<close>, \<open>removePrinter\<close>, \<open>removeNode\<close> or
  \<open>upsertPrinterStates\<close> has every printer's \<open>nodeId\<close> equal to the id of one of its nodes
  and every key of its state map equal to the id of one of its printers.
\<close>

theorem returned_snapshots_resolve:
  assumes "cache w = None"
    and "s \<in> set (returned history w)"
  shows "referencesResolve s"
proof -
  from assms(1) have "cacheHolds referencesResolve w"
    by (simp add: cacheHolds_def)
  then show ?thesis
    using assms(2) by (rule returned_resolve)
qed

theorem returned_snapshots_resolve_witness:
  "cache exampleWorld = None \<and>
   registeredSnapshot \<in> set (returned exampleHistory exampleWorld) \<and>
   referencesResolve registeredSnapshot"
proof -
  have start: "cache exampleWorld = None"
    by (simp add: exampleWorld_def)
  have member: "registeredSnapshot \<in> set (returned exampleHistory exampleWorld)"
    by code_simp
  from returned_snapshots_resolve [OF start member] start member show ?thesis
    by simp
qed

section \<open>Uniqueness of ids\<close>

lemma read_contents:
  assumes "disk v = disk w"
  shows "nodes (fst (readSnapshotFromDisk v)) = nodes (fst (readSnapshotFromDisk w))"
    and "printers (fst (readSnapshotFromDisk v)) = printers (fst (readSnapshotFromDisk w))"
    and "states (fst (readSnapshotFromDisk v)) = states (fst (readSnapshotFromDisk w))"
proof -
  show "nodes (fst (readSnapshotFromDisk v)) = nodes (fst (readSnapshotFromDisk w))"
    using assms by (cases "disk w") (simp_all add: readSnapshotFromDisk_def split_beta sanitize_nodes)
  then have n: "nodeIdsOf (fst (readSnapshotFromDisk v)) = nodeIdsOf (fst (readSnapshotFromDisk w))"
    by (simp add: nodeIdsOf_def)
  show p: "printers (fst (readSnapshotFromDisk v)) = printers (fst (readSnapshotFromDisk w))"
  proof (cases "disk w")
    case (Holds parsed)
    with assms n show ?thesis
      using sanitize_printers [of parsed v] sanitize_printers [of parsed w]
      by (simp add: readSnapshotFromDisk_def)
  qed (use assms in \<open>simp_all add: readSnapshotFromDisk_def split_beta\<close>)
  then have q: "printerIdsOf (fst (readSnapshotFromDisk v)) = printerIdsOf (fst (readSnapshotFromDisk w))"
    by (simp add: printerIdsOf_def)
  show "states (fst (readSnapshotFromDisk v)) = states (fst (readSnapshotFromDisk w))"
  proof (cases "disk w")
    case (Holds parsed)
    with assms q show ?thesis
      using sanitize_states [of parsed v] sanitize_states [of parsed w]
      by (simp add: readSnapshotFromDisk_def)
  qed (use assms in \<open>simp_all add: readSnapshotFromDisk_def split_beta\<close>)
qed

lemma resanitize_idsDistinct:
  assumes "idsDistinct m"
  shows "idsDistinct (fst (sanitizeSnapshot (snapshotJson m) w))"
  using assms
  by (simp add: idsDistinct_def nodeIdsOf_def printerIdsOf_def resanitize_nodes resanitize_printers
      distinct_map_filter)

lemma idsDistinct_updatedAt [simp]: "idsDistinct (s\<lparr>updatedAt := t\<rparr>) = idsDistinct s"
  by (simp add: idsDistinct_def)

lemma update_idsDistinct:
  assumes run: "updateSnapshot mutator w = (Inr s, w')"
    and mut: "\<And>m v. mutator (fst (readSnapshotFromDisk w)) (snd (readSnapshotFromDisk w)) = (Inr m, v)
                 \<Longrightarrow> idsDistinct m"
  shows "idsDistinct s"
  using updateSnapshot_Inr [OF run] mut by (auto simp: resanitize_idsDistinct)

text \<open>What a successful run of the registration closure returns, and the ids it draws.\<close>

lemma registerPrinterMutator_Inr:
  assumes "registerPrinterMutator input n b cur v = (Inr m, v')"
  shows "(nodes m = nodes cur \<and> drawn v' = Suc (drawn v) \<and>
          (\<exists>p. printers m = printers cur @ [p] \<and>
               getField p ''id'' = Some (JStr (uuids v (drawn v))))) \<or>
         (drawn v' = Suc (Suc (drawn v)) \<and>
          (\<exists>nd p. nodes m = nodes cur @ [nd] \<and>
               getField nd ''id'' = Some (JStr (uuids v (drawn v))) \<and>
               printers m = printers cur @ [p] \<and>
               getField p ''id'' = Some (JStr (uuids v (Suc (drawn v))))))"
  using assms
  by (auto simp: registerPrinterMutator_def Let_def split_beta now_def createId_def
           split: sum.splits if_splits option.splits)

lemma updateSnapshot_drawn:
  assumes run: "updateSnapshot mutator w = (Inr s, w')"
    and mut: "mutator (fst (readSnapshotFromDisk w)) (snd (readSnapshotFromDisk w)) = (Inr m, w2)"
  shows "drawn w' = drawn w2"
proof -
  from updateSnapshot_Inr [OF run] mut have "writable w2" by auto
  from updateSnapshot_succeeds [of mutator w m w2, OF mut this] run show ?thesis by auto
qed

lemma seed_idsDistinct:
  assumes "idsDistinct snapshot"
    and "maybeSeedDefaults snapshot dflt w = (Inr s, w')"
  shows "idsDistinct s"
proof -
  from assms(2) have "s = snapshot \<or> (\<exists>n p. nodes s = [n] \<and> printers s = [p])"
    by (auto simp: maybeSeedDefaults_def Let_def split_beta split: option.splits if_splits sum.splits)
  with assms(1) show ?thesis
    by (auto simp: idsDistinct_def nodeIdsOf_def printerIdsOf_def)
qed

lemma idsDistinct_cong:
  "nodes a = nodes b \<Longrightarrow> printers a = printers b \<Longrightarrow> idsDistinct a = idsDistinct b"
  by (simp add: idsDistinct_def nodeIdsOf_def printerIdsOf_def)

lemma getSnapshot_idsDistinct:
  assumes run: "getSnapshot dflt w = (Inr s, w')"
    and stored: "idsDistinct (fst (readSnapshotFromDisk w))"
    and cached: "cacheFresh w \<longrightarrow> cacheHolds idsDistinct w"
  shows "idsDistinct s"
proof (cases "cacheFresh w")
  case True
  from getSnapshot_hit [OF True, of dflt] run cached True show ?thesis
    by (auto simp: cacheHolds_def)
next
  case False
  define w1 where "w1 = (if cache w = None then w else snd (now w))"
  define cur where "cur = fst (readSnapshotFromDisk w1)"
  define w2 where "w2 = snd (readSnapshotFromDisk w1)"
  obtain q w3 where seed: "maybeSeedDefaults cur dflt w2 = (q, w3)"
    by (cases "maybeSeedDefaults cur dflt w2")
  have "disk w1 = disk w" by (simp add: w1_def now_fields)
  from read_contents(1,2) [OF this] have cur: "idsDistinct cur"
    using stored idsDistinct_cong [of cur "fst (readSnapshotFromDisk w)"]
    by (simp add: cur_def)
  have gs: "getSnapshot dflt w = (case q of Inl e \<Rightarrow> (Inl e, w3)
       | Inr s \<Rightarrow> (Inr s, (snd (now w3))\<lparr>cache := Some (s, fst (now w3) + CACHE_TTL_MS)\<rparr>))"
    unfolding getSnapshot_miss [OF False]
    using seed by (simp add: Let_def split_beta w1_def cur_def w2_def cong: sum.case_cong)
  with run have "q = Inr s" by (cases q) auto
  with seed seed_idsDistinct [OF cur] show ?thesis by simp
qed


lemma removePrinterMutator_Inr:
  assumes "removePrinterMutator printerId cur v = (Inr m, v')"
  shows "nodes m = nodes cur"
    and "printers m = filter (\<lambda>printer. getField printer ''id'' \<noteq> Some (JStr printerId)) (printers cur)"
    and "states m = map_option (AList.delete printerId) (states cur)"
    and "length (printers m) \<noteq> length (printers cur)"
  using assms
  by (auto simp: removePrinterMutator_def Let_def split: if_splits option.splits)

lemma removeNodeMutator_Inr:
  assumes "removeNodeMutator nodeId' cur v = (Inr m, v')"
  shows "nodes m = filter (\<lambda>node. getField node ''id'' \<noteq> Some (JStr nodeId')) (nodes cur)"
    and "printers m = filter (\<lambda>printer. getField printer ''nodeId'' \<noteq> Some (JStr nodeId')) (printers cur)"
    and "states m = (case states cur of None \<Rightarrow> None
                     | Some kvs \<Rightarrow> (let pruned = pruneStates (printers m) (map fst kvs) kvs
                                   in if pruned = [] then None else Some pruned))"
    and "length (nodes m) \<noteq> length (nodes cur)"
  using assms
  by (auto simp: removeNodeMutator_def Let_def split: if_splits option.splits)

lemma upsertMutator_Inr:
  assumes "upsertPrinterStatesMutator input cur v = (r, v')"
  shows "\<exists>m. r = Inr m \<and> nodes m = nodes cur \<and> printers m = printers cur \<and>
           states m = (let merged = mergeStates (printerIdsOf cur) input
                                      (case states cur of None \<Rightarrow> [] | Some kvs \<Rightarrow> kvs)
                       in if merged = [] then None else Some merged)"
  using assms
  by (auto simp: upsertPrinterStatesMutator_def Let_def printerIdsOf_def)

text \<open>Reading the file on a cache miss, \<open>getSnapshot\<close> returns the valid stored nodes and
  printers as they are when there is a printer among them.\<close>

lemma getSnapshot_returns_stored:
  assumes run: "getSnapshot dflt w = (Inr s, w')"
    and miss: "\<not> cacheFresh w"
    and some: "printers (fst (readSnapshotFromDisk w)) \<noteq> []"
  shows "nodes s = nodes (fst (readSnapshotFromDisk w))"
    and "printers s = printers (fst (readSnapshotFromDisk w))"
proof -
  define w1 where "w1 = (if cache w = None then w else snd (now w))"
  define cur where "cur = fst (readSnapshotFromDisk w1)"
  define w2 where "w2 = snd (readSnapshotFromDisk w1)"
  have "disk w1 = disk w" by (simp add: w1_def now_fields)
  note same = read_contents(1,2) [OF this]
  from same some have p: "printers cur \<noteq> []" by (simp add: cur_def)
  have "sanitized cur" by (simp add: cur_def read_sanitized)
  with p have n: "nodes cur \<noteq> []"
    by (cases "printers cur") (auto simp: sanitized_def isValidPrinter_def nodeIdsOf_def split: if_splits)
  from n p have seed: "maybeSeedDefaults cur dflt w2 = (Inr cur, w2)"
    by (simp add: maybeSeedDefaults_def)
  have "getSnapshot dflt w =
          (Inr cur, (snd (now w2))\<lparr>cache := Some (cur, fst (now w2) + CACHE_TTL_MS)\<rparr>)"
    unfolding getSnapshot_miss [OF miss]
    using seed by (simp add: Let_def split_beta w1_def cur_def w2_def)
  with run have "s = cur" by simp
  with same show "nodes s = nodes (fst (readSnapshotFromDisk w))"
    and "printers s = printers (fst (readSnapshotFromDisk w))"
    by (simp_all add: cur_def)
qed

lemma upsert_returns_stored:
  assumes run: "upsertPrinterStates input w = (Inr s, w')"
  shows "nodes s = nodes (fst (readSnapshotFromDisk w))"
    and "printers s = printers (fst (readSnapshotFromDisk w))"
proof -
  define cur where "cur = fst (readSnapshotFromDisk w)"
  have cur: "sanitized cur" by (simp add: cur_def read_sanitized)
  from run have "updateSnapshot (upsertPrinterStatesMutator input) w = (Inr s, w')"
    by (simp add: upsertPrinterStates_def)
  from updateSnapshot_Inr [OF this] obtain m w2 t
    where mut: "upsertPrinterStatesMutator input cur (snd (readSnapshotFromDisk w)) = (Inr m, w2)"
      and s: "s = (fst (sanitizeSnapshot (snapshotJson m) w2))\<lparr>updatedAt := Finite (of_int t)\<rparr>"
    unfolding cur_def by blast
  from upsertMutator_Inr [OF mut] have m: "nodes m = nodes cur" "printers m = printers cur"
    by auto
  from cur have n: "filter isValidNode (nodes cur) = nodes cur"
    by (intro filter_True) (simp add: sanitized_def)
  from cur have p: "filter (\<lambda>entry. isValidPrinter entry (map (\<lambda>node. getField node ''id'') (nodes cur)))
                      (printers cur) = printers cur"
    by (intro filter_True) (simp add: sanitized_def nodeIdsOf_def)
  show "nodes s = nodes (fst (readSnapshotFromDisk w))"
    using s m n by (simp add: resanitize_nodes cur_def)
  show "printers s = printers (fst (readSnapshotFromDisk w))"
    using s m n p by (simp add: resanitize_printers cur_def)
qed

text \<open>
  C2 as stated fails: the file \<open>duplicateStored\<close> holds two valid nodes with id \<open>n1\<close> and
  two valid printers with id \<open>p1\<close>; \<open>getSnapshot\<close> returns all four entries, and so does
  \<open>upsertPrinterStates\<close>.
\<close>

theorem duplicate_ids_survive:
  "fst (getSnapshot None duplicateWorld) = Inr duplicateSnapshot \<and>
   fst (upsertPrinterStates [] duplicateWorld) = Inr (duplicateSnapshot\<lparr>updatedAt := Finite 1000\<rparr>) \<and>
   \<not> distinct (nodeIdsOf duplicateSnapshot) \<and>
   \<not> distinct (printerIdsOf duplicateSnapshot)"
  by code_simp

text \<open>
  C2, amended. The snapshot an operation returns has pairwise distinct node ids and
  pairwise distinct printer ids when the valid nodes and the valid printers of the
  stored data have, the cached snapshot has if it is the one served, and the ids
  \<open>createId\<close> generates during the operation are not ids of stored nodes or printers.
  Uniqueness is kept, not enforced: \<open>upsertPrinterStates\<close> returns the valid stored
  nodes and printers as they are, and so does \<open>getSnapshot\<close> when it reads the file (no
  cached snapshot is served) and finds a valid printer; so valid stored entries that
  share an id are returned sharing it.
\<close>

theorem distinct_ids_are_kept:
  "(perform op w = (Inr s, w') \<and>
    idsDistinct (fst (readSnapshotFromDisk w)) \<and>
    (cacheFresh w \<longrightarrow> cacheHolds idsDistinct w) \<and>
    (\<forall>i \<in> set (generatedIds w w').
        Some (JStr i) \<notin> set (nodeIdsOf (fst (readSnapshotFromDisk w))) \<and>
        Some (JStr i) \<notin> set (printerIdsOf (fst (readSnapshotFromDisk w))))
    \<longrightarrow> idsDistinct s) \<and>
   (upsertPrinterStates input w = (Inr s, w')
    \<longrightarrow> nodes s = nodes (fst (readSnapshotFromDisk w)) \<and>
        printers s = printers (fst (readSnapshotFromDisk w))) \<and>
   (getSnapshot dflt w = (Inr s, w') \<and> \<not> cacheFresh w \<and>
    printers (fst (readSnapshotFromDisk w)) \<noteq> []
    \<longrightarrow> nodes s = nodes (fst (readSnapshotFromDisk w)) \<and>
        printers s = printers (fst (readSnapshotFromDisk w)))"
proof (intro conjI impI; (elim conjE)?)
  assume run: "perform op w = (Inr s, w')"
    and stored: "idsDistinct (fst (readSnapshotFromDisk w))"
    and cached: "cacheFresh w \<longrightarrow> cacheHolds idsDistinct w"
    and fresh: "\<forall>i \<in> set (generatedIds w w').
        Some (JStr i) \<notin> set (nodeIdsOf (fst (readSnapshotFromDisk w))) \<and>
        Some (JStr i) \<notin> set (printerIdsOf (fst (readSnapshotFromDisk w)))"
  show "idsDistinct s"
  proof (cases op)
    case (GetSnapshot dflt')
    with run stored cached show ?thesis
      by (simp add: getSnapshot_idsDistinct)
  next
    case (RegisterPrinter input')
    with run have upd: "updateSnapshot (registerPrinterMutator input' (trim (name input')) (trim (baseUrl input'))) w
        = (Inr s, w')"
      by (simp add: registerPrinter_def Let_def split: if_splits)
    show ?thesis
    proof (rule update_idsDistinct [OF upd])
      fix m v
      assume mut: "registerPrinterMutator input' (trim (name input')) (trim (baseUrl input'))
                (fst (readSnapshotFromDisk w)) (snd (readSnapshotFromDisk w)) = (Inr m, v)"
      from updateSnapshot_drawn [OF upd mut] have d: "drawn w' = drawn v" .
      from registerPrinterMutator_Inr [OF mut]
      consider (old) p where "nodes m = nodes (fst (readSnapshotFromDisk w))"
          "drawn v = Suc (drawn w)"
          "printers m = printers (fst (readSnapshotFromDisk w)) @ [p]"
          "getField p ''id'' = Some (JStr (uuids w (drawn w)))"
        | (new) nd p where "drawn v = Suc (Suc (drawn w))"
          "nodes m = nodes (fst (readSnapshotFromDisk w)) @ [nd]"
          "getField nd ''id'' = Some (JStr (uuids w (drawn w)))"
          "printers m = printers (fst (readSnapshotFromDisk w)) @ [p]"
          "getField p ''id'' = Some (JStr (uuids w (Suc (drawn w))))"
        by (auto simp: read_world)
      then show "idsDistinct m"
      proof cases
        case old
        with d have "generatedIds w w' = [uuids w (drawn w)]"
          by (simp add: generatedIds_def)
        with fresh old stored show ?thesis
          by (simp add: idsDistinct_def nodeIdsOf_def printerIdsOf_def)
      next
        case new
        with d have "generatedIds w w' = [uuids w (drawn w), uuids w (Suc (drawn w))]"
          by (simp add: generatedIds_def upt_rec)
        with fresh new stored show ?thesis
          by (simp add: idsDistinct_def nodeIdsOf_def printerIdsOf_def)
      qed
    qed
  next
    case (RemovePrinter printerId)
    with run have upd: "updateSnapshot (removePrinterMutator printerId) w = (Inr s, w')"
      by (simp add: removePrinter_def split: if_splits)
    show ?thesis
    proof (rule update_idsDistinct [OF upd])
      fix m v
      assume "removePrinterMutator printerId (fst (readSnapshotFromDisk w)) (snd (readSnapshotFromDisk w))
                = (Inr m, v)"
      from removePrinterMutator_Inr(1,2) [OF this] stored
      show "idsDistinct m"
        by (simp add: idsDistinct_def nodeIdsOf_def printerIdsOf_def distinct_map_filter)
    qed
  next
    case (RemoveNode nodeId')
    with run have upd: "updateSnapshot (removeNodeMutator nodeId') w = (Inr s, w')"
      by (simp add: removeNode_def split: if_splits)
    show ?thesis
    proof (rule update_idsDistinct [OF upd])
      fix m v
      assume "removeNodeMutator nodeId' (fst (readSnapshotFromDisk w)) (snd (readSnapshotFromDisk w))
                = (Inr m, v)"
      from removeNodeMutator_Inr(1,2) [OF this] stored
      show "idsDistinct m"
        by (simp add: idsDistinct_def nodeIdsOf_def printerIdsOf_def distinct_map_filter)
    qed
  next
    case (UpsertPrinterStates input')
    with run have upd: "updateSnapshot (upsertPrinterStatesMutator input') w = (Inr s, w')"
      by (simp add: upsertPrinterStates_def)
    show ?thesis
    proof (rule update_idsDistinct [OF upd])
      fix m v
      assume "upsertPrinterStatesMutator input' (fst (readSnapshotFromDisk w)) (snd (readSnapshotFromDisk w))
                = (Inr m, v)"
      from upsertMutator_Inr [OF this] stored
      show "idsDistinct m"
        by (auto simp: idsDistinct_def nodeIdsOf_def printerIdsOf_def)
    qed
  qed
next
  assume "upsertPrinterStates input w = (Inr s, w')"
  from upsert_returns_stored [OF this]
  show "nodes s = nodes (fst (readSnapshotFromDisk w))"
    and "printers s = printers (fst (readSnapshotFromDisk w))" .
next
  assume "getSnapshot dflt w = (Inr s, w')" "\<not> cacheFresh w"
    "printers (fst (readSnapshotFromDisk w)) \<noteq> []"
  from getSnapshot_returns_stored [OF this]
  show "nodes s = nodes (fst (readSnapshotFromDisk w))"
    and "printers s = printers (fst (readSnapshotFromDisk w))" .
qed

text \<open>
  The theorem at work on \<open>registeredWorld\<close>, where the file holds a node and a printer
  whose ids the store has generated itself (\<open>id-0\<close> and \<open>id-1\<close>): a further registration
  draws \<open>id-2\<close> and returns distinct ids. On \<open>duplicateWorld\<close> the two nodes with id
  \<open>n1\<close> and the two printers with id \<open>p1\<close> come back from \<open>upsertPrinterStates\<close> and from
  \<open>getSnapshot\<close>.
\<close>

theorem distinct_ids_are_kept_witness:
  "fst (perform (RegisterPrinter secondRegistration) registeredWorld) = Inr twiceRegistered \<and>
   nodeIdsOf (fst (readSnapshotFromDisk registeredWorld)) = [Some (JStr ''n1''), Some (JStr ''id-0'')] \<and>
   printerIdsOf (fst (readSnapshotFromDisk registeredWorld)) = [Some (JStr ''p1''), Some (JStr ''id-1'')] \<and>
   cacheHolds idsDistinct registeredWorld \<and>
   generatedIds registeredWorld (snd (perform (RegisterPrinter secondRegistration) registeredWorld)) = [''id-2''] \<and>
   idsDistinct twiceRegistered \<and>
   (\<exists>s. fst (upsertPrinterStates [] duplicateWorld) = Inr s \<and>
        nodes s = nodes duplicateSnapshot \<and> printers s = printers duplicateSnapshot) \<and>
   \<not> cacheFresh duplicateWorld \<and>
   (\<exists>s. fst (getSnapshot None duplicateWorld) = Inr s \<and>
        nodes s = nodes duplicateSnapshot \<and> printers s = printers duplicateSnapshot)"
proof -
  define w2 where "w2 = snd (perform (RegisterPrinter secondRegistration) registeredWorld)"
  have r: "fst (perform (RegisterPrinter secondRegistration) registeredWorld) = Inr twiceRegistered"
    by code_simp
  then have run: "perform (RegisterPrinter secondRegistration) registeredWorld = (Inr twiceRegistered, w2)"
    by (simp add: prod_eq_iff w2_def)
  have n: "nodeIdsOf (fst (readSnapshotFromDisk registeredWorld)) = [Some (JStr ''n1''), Some (JStr ''id-0'')]"
    by code_simp
  have p: "printerIdsOf (fst (readSnapshotFromDisk registeredWorld)) = [Some (JStr ''p1''), Some (JStr ''id-1'')]"
    by code_simp
  have stored: "idsDistinct (fst (readSnapshotFromDisk registeredWorld))"
    by (simp add: idsDistinct_def n p)
  have cached: "cacheHolds idsDistinct registeredWorld"
    by code_simp
  have g: "generatedIds registeredWorld w2 = [''id-2'']"
    unfolding w2_def by code_simp
  have fresh: "\<forall>i \<in> set (generatedIds registeredWorld w2).
        Some (JStr i) \<notin> set (nodeIdsOf (fst (readSnapshotFromDisk registeredWorld))) \<and>
        Some (JStr i) \<notin> set (printerIdsOf (fst (readSnapshotFromDisk registeredWorld)))"
    by (simp add: g n p)
  have one: "idsDistinct twiceRegistered"
    using distinct_ids_are_kept [of "RegisterPrinter secondRegistration" registeredWorld twiceRegistered w2]
      run stored cached fresh by blast
  have d: "fst (upsertPrinterStates [] duplicateWorld) = Inr (duplicateSnapshot\<lparr>updatedAt := Finite 1000\<rparr>)"
    "fst (getSnapshot None duplicateWorld) = Inr duplicateSnapshot"
    by code_simp+
  have cur: "nodes (fst (readSnapshotFromDisk duplicateWorld)) = nodes duplicateSnapshot"
    "printers (fst (readSnapshotFromDisk duplicateWorld)) = printers duplicateSnapshot"
    by code_simp+
  have some: "printers (fst (readSnapshotFromDisk duplicateWorld)) \<noteq> []"
    unfolding cur by (simp add: duplicateSnapshot_def)
  have miss: "\<not> cacheFresh duplicateWorld"
    by code_simp
  have two: "nodes (duplicateSnapshot\<lparr>updatedAt := Finite 1000\<rparr>) = nodes duplicateSnapshot \<and>
             printers (duplicateSnapshot\<lparr>updatedAt := Finite 1000\<rparr>) = printers duplicateSnapshot"
    using distinct_ids_are_kept [of _ duplicateWorld "duplicateSnapshot\<lparr>updatedAt := Finite 1000\<rparr>"
        "snd (upsertPrinterStates [] duplicateWorld)" "[]"] d(1) cur
    by (simp add: prod_eq_iff)
  have three: "nodes duplicateSnapshot = nodes duplicateSnapshot \<and>
               printers duplicateSnapshot = printers duplicateSnapshot"
    using distinct_ids_are_kept [of _ duplicateWorld duplicateSnapshot
        "snd (getSnapshot None duplicateWorld)" _ None] d(2) cur miss some
    by (simp add: prod_eq_iff)
  from r n p cached g one d two three miss show ?thesis
    unfolding w2_def by simp
qed


section \<open>Validation of registrations, and reading without a usable file\<close>

text \<open>
  C8. When the name or the base URL of a registration is blank after trimming,
  \<open>registerPrinter\<close> fails with an error whose message names the missing field (the name
  if it is blank, otherwise the base URL), and it changes nothing: the file, the cache
  and the rest of the environment are exactly as before the call.
\<close>

theorem blank_registration_rejected:
  assumes "trim (name input) = [] \<or> trim (baseUrl input) = []"
  shows "registerPrinter input w =
           (Inl (Error (if trim (name input) = []
                        then ''El nombre de la impresora es obligatorio.''
                        else ''La URL base es obligatoria.'')), w)"
  using assms by (auto simp: registerPrinter_def Let_def)

theorem blank_registration_rejected_witness:
  "(trim (name blankRegistration) = [] \<or> trim (baseUrl blankRegistration) = []) \<and>
   registerPrinter blankRegistration exampleWorld =
     (Inl (Error ''El nombre de la impresora es obligatorio.''), exampleWorld)"
proof -
  have blank: "trim (name blankRegistration) = []"
    by code_simp
  then have hyp: "trim (name blankRegistration) = [] \<or> trim (baseUrl blankRegistration) = []"
    by simp
  from blank_registration_rejected [OF hyp, of exampleWorld] blank show ?thesis
    by simp
qed

lemma seed_failure:
  assumes "maybeSeedDefaults snapshot dflt w = (Inl e, w')"
  shows "e = WriteError \<and> \<not> writable w"
  using assms
  by (cases "writable w")
     (auto simp: maybeSeedDefaults_def Let_def split_beta now_def createId_def write_ok write_fail
           split: option.splits if_splits sum.splits)

lemma getSnapshot_failure:
  assumes "getSnapshot dflt w = (Inl e, w')"
  shows "e = WriteError \<and> \<not> writable w"
proof (cases "cacheFresh w")
  case True
  from getSnapshot_hit [OF True, of dflt] assms show ?thesis by auto
next
  case False
  define w1 where "w1 = (if cache w = None then w else snd (now w))"
  define cur where "cur = fst (readSnapshotFromDisk w1)"
  define w2 where "w2 = snd (readSnapshotFromDisk w1)"
  obtain q w3 where seed: "maybeSeedDefaults cur dflt w2 = (q, w3)"
    by (cases "maybeSeedDefaults cur dflt w2")
  have wr: "writable w2 = writable w"
    by (simp add: w2_def w1_def read_world now_fields)
  have gs: "getSnapshot dflt w = (case q of Inl e \<Rightarrow> (Inl e, w3)
       | Inr s \<Rightarrow> (Inr s, (snd (now w3))\<lparr>cache := Some (s, fst (now w3) + CACHE_TTL_MS)\<rparr>))"
    unfolding getSnapshot_miss [OF False]
    using seed by (simp add: Let_def split_beta w1_def cur_def w2_def cong: sum.case_cong)
  with assms have "q = Inl e" by (cases q) auto
  with seed seed_failure wr show ?thesis by blast
qed


lemma read_nothing:
  assumes "disk w = Missing \<or> disk w = Unreadable \<or> disk w = Holds emptyStored"
  shows "readSnapshotFromDisk w =
           (\<lparr>nodes = [], printers = [], states = None,
             updatedAt = Finite (of_int (clock w (ticks w)))\<rparr>, w\<lparr>ticks := Suc (ticks w)\<rparr>)"
  using assms
  by (auto simp: readSnapshotFromDisk_def sanitizeSnapshot_def emptyStored_def now_def Let_def)

lemma seed_whatever_disk:
  "fst (maybeSeedDefaults s d (v\<lparr>disk := f\<rparr>)) = fst (maybeSeedDefaults s d v)"
  "cache (snd (maybeSeedDefaults s d (v\<lparr>disk := f\<rparr>))) = cache (snd (maybeSeedDefaults s d v))"
  "ticks (snd (maybeSeedDefaults s d (v\<lparr>disk := f\<rparr>))) = ticks (snd (maybeSeedDefaults s d v))"
  "clock (snd (maybeSeedDefaults s d (v\<lparr>disk := f\<rparr>))) = clock (snd (maybeSeedDefaults s d v))"
  by (simp_all add: maybeSeedDefaults_def Let_def split_beta now_def createId_def
        writeSnapshotToDisk_def split: option.splits)

lemma cacheFresh_disk [simp]: "cacheFresh (w\<lparr>disk := f\<rparr>) = cacheFresh w"
  by (simp add: cacheFresh_def split: option.splits)

lemma getSnapshot_nothing:
  assumes "f = Missing \<or> f = Unreadable \<or> f = Holds emptyStored"
  shows "fst (getSnapshot dflt (w\<lparr>disk := f\<rparr>)) = fst (getSnapshot dflt (w\<lparr>disk := Missing\<rparr>))"
proof (cases "cacheFresh w")
  case True
  then have a: "cacheFresh (w\<lparr>disk := f\<rparr>)" and b: "cacheFresh (w\<lparr>disk := Missing\<rparr>)"
    by simp_all
  from getSnapshot_hit [OF a, of dflt] getSnapshot_hit [OF b, of dflt] show ?thesis
    by auto
next
  case False
  then have a: "\<not> cacheFresh (w\<lparr>disk := f\<rparr>)" and b: "\<not> cacheFresh (w\<lparr>disk := Missing\<rparr>)"
    by simp_all
  define v where "v = (if cache w = None then w else snd (now w))"
  have va: "(if cache (w\<lparr>disk := f\<rparr>) = None then w\<lparr>disk := f\<rparr> else snd (now (w\<lparr>disk := f\<rparr>)))
              = v\<lparr>disk := f\<rparr>" for f
    by (simp add: v_def now_def)
  have rd: "readSnapshotFromDisk (v\<lparr>disk := g\<rparr>) =
           (\<lparr>nodes = [], printers = [], states = None,
             updatedAt = Finite (of_int (clock v (ticks v)))\<rparr>, (v\<lparr>ticks := Suc (ticks v)\<rparr>)\<lparr>disk := g\<rparr>)"
    if "g = Missing \<or> g = Unreadable \<or> g = Holds emptyStored" for g
    using read_nothing [of "v\<lparr>disk := g\<rparr>"] that by auto
  show ?thesis
    unfolding getSnapshot_miss [OF a] getSnapshot_miss [OF b] va
    using assms
    by (simp add: rd Let_def split_beta seed_whatever_disk split: sum.splits)
qed


lemma seed_without_url:
  assumes "seedUrl dflt = None \<or> seedUrl dflt = Some []"
  shows "fst (maybeSeedDefaults s dflt v) = Inr s"
  using assms
  by (auto simp: maybeSeedDefaults_def seedUrl_def Let_def split_beta split: option.splits)

text \<open>
  C9. \<open>getSnapshot\<close> never fails because of a read: its only failure is a rejected write
  of the seeded snapshot. With the file missing, or unreadable or unparseable, it returns
  what it returns when the file holds a snapshot with no nodes, no printers and no
  states; in particular, when no fresh cached snapshot is served and no base URL is
  given for seeding, it returns the empty snapshot.
\<close>

theorem getSnapshot_degrades_read_failures:
  "(\<forall>e. fst (getSnapshot dflt w) = Inl e \<longrightarrow> e = WriteError \<and> \<not> writable w) \<and>
   (f = Missing \<or> f = Unreadable \<longrightarrow>
      fst (getSnapshot dflt (w\<lparr>disk := f\<rparr>)) = fst (getSnapshot dflt (w\<lparr>disk := Holds emptyStored\<rparr>)) \<and>
      (\<not> cacheFresh w \<and> (seedUrl dflt = None \<or> seedUrl dflt = Some []) \<longrightarrow>
         (\<exists>t. fst (getSnapshot dflt (w\<lparr>disk := f\<rparr>)) =
                Inr \<lparr>nodes = [], printers = [], states = None, updatedAt = t\<rparr>)))"
proof (intro conjI allI impI)
  fix e
  assume "fst (getSnapshot dflt w) = Inl e"
  then have "getSnapshot dflt w = (Inl e, snd (getSnapshot dflt w))"
    by (simp add: prod_eq_iff)
  then show "e = WriteError" "\<not> writable w"
    using getSnapshot_failure by blast+
next
  assume f: "f = Missing \<or> f = Unreadable"
  then have "fst (getSnapshot dflt (w\<lparr>disk := f\<rparr>)) = fst (getSnapshot dflt (w\<lparr>disk := Missing\<rparr>))"
    by (intro getSnapshot_nothing) auto
  also have "\<dots> = fst (getSnapshot dflt (w\<lparr>disk := Holds emptyStored\<rparr>))"
    by (rule getSnapshot_nothing [symmetric]) simp
  finally show "fst (getSnapshot dflt (w\<lparr>disk := f\<rparr>)) =
      fst (getSnapshot dflt (w\<lparr>disk := Holds emptyStored\<rparr>))" .
next
  assume f: "f = Missing \<or> f = Unreadable"
    and "\<not> cacheFresh w \<and> (seedUrl dflt = None \<or> seedUrl dflt = Some [])"
  then have miss: "\<not> cacheFresh (w\<lparr>disk := f\<rparr>)"
    and url: "seedUrl dflt = None \<or> seedUrl dflt = Some []"
    by simp_all
  define v where "v = (if cache (w\<lparr>disk := f\<rparr>) = None then w\<lparr>disk := f\<rparr> else snd (now (w\<lparr>disk := f\<rparr>)))"
  have "disk v = Missing \<or> disk v = Unreadable \<or> disk v = Holds emptyStored"
    using f by (auto simp: v_def now_def)
  from read_nothing [OF this] seed_without_url [OF url]
  show "\<exists>t. fst (getSnapshot dflt (w\<lparr>disk := f\<rparr>)) =
                Inr \<lparr>nodes = [], printers = [], states = None, updatedAt = t\<rparr>"
    unfolding getSnapshot_miss [OF miss] v_def [symmetric]
    by (simp add: Let_def split_beta split: sum.splits)
qed

theorem getSnapshot_degrades_read_failures_witness:
  "fst (getSnapshot None (exampleWorld\<lparr>disk := Unreadable\<rparr>)) =
     Inr \<lparr>nodes = [], printers = [], states = None, updatedAt = Finite 1000\<rparr> \<and>
   fst (getSnapshot None (exampleWorld\<lparr>disk := Holds emptyStored\<rparr>)) =
     Inr \<lparr>nodes = [], printers = [], states = None, updatedAt = Finite 1000\<rparr> \<and>
   \<not> cacheFresh exampleWorld \<and> seedUrl None = None"
proof -
  have a: "fst (getSnapshot None (exampleWorld\<lparr>disk := Unreadable\<rparr>)) =
     Inr \<lparr>nodes = [], printers = [], states = None, updatedAt = Finite 1000\<rparr>"
    by code_simp
  have b: "\<not> cacheFresh exampleWorld" "seedUrl None = None"
    by (simp_all add: cacheFresh_def exampleWorld_def seedUrl_def)
  from getSnapshot_degrades_read_failures [of None "exampleWorld" Unreadable] a b
  show ?thesis by simp
qed

section \<open>Seeding of defaults\<close>

lemma sanitized_no_printers:
  assumes "sanitized s" and "printers s = []"
  shows "states s = None"
proof (cases "states s")
  case (Some kvs)
  with assms show ?thesis
    by (cases kvs) (auto simp: sanitized_def printerIdsOf_def)
qed simp

lemma seed_runs:
  assumes none: "printers snapshot = []"
    and url: "seedUrl dflt = Some url" "url \<noteq> []"
    and wr: "writable v"
  shows "\<exists>s v' nid pid pname t.
           maybeSeedDefaults snapshot dflt v = (Inr s, v') \<and>
           nodes s = [JObj [(''id'', JStr nid), (''name'', JStr ''Nodo principal''),
                            (''createdAt'', JNum (Finite t))]] \<and>
           printers s = [JObj [(''id'', JStr pid), (''name'', JStr pname), (''baseUrl'', JStr url),
                               (''nodeId'', JStr nid), (''createdAt'', JNum (Finite t))]] \<and>
           states s = states snapshot \<and>
           (\<exists>u. updatedAt s = Finite u) \<and>
           disk v' = Holds (stringifyParse (snapshotJson s))"
  using assms
  by (auto simp: maybeSeedDefaults_def seedUrl_def Let_def split_beta now_def createId_def write_ok
           split: option.splits)

lemma stringifyParse_seeded:
  assumes "nodes s = [JObj [(''id'', JStr nid), (''name'', JStr nm), (''createdAt'', JNum (Finite t))]]"
    and "printers s = [JObj [(''id'', JStr pid), (''name'', JStr pname), (''baseUrl'', JStr url),
                               (''nodeId'', JStr nid'), (''createdAt'', JNum (Finite t'))]]"
    and "states s = None"
    and "updatedAt s = Finite u"
  shows "stringifyParse (snapshotJson s) = snapshotJson s"
  using assms by (simp add: snapshotJson_def)

text \<open>
  C10. When no fresh cached snapshot is served, the stored snapshot has at least one node
  and no printer, a non-empty \<open>defaults.baseUrl\<close> is given and the file can be written,
  \<open>getSnapshot\<close> returns, and writes to the file, a snapshot whose only node is the
  default node named \<open>Nodo principal\<close> and whose only printer is the default printer on
  that node: the stored nodes are not kept.
\<close>

theorem seeding_discards_stored_nodes:
  assumes miss: "\<not> cacheFresh w"
    and some: "nodes (fst (readSnapshotFromDisk w)) \<noteq> []"
    and none: "printers (fst (readSnapshotFromDisk w)) = []"
    and url: "seedUrl dflt = Some url" "url \<noteq> []"
    and wr: "writable w"
  shows "\<exists>s w' nid pid pname t.
           getSnapshot dflt w = (Inr s, w') \<and>
           nodes s = [JObj [(''id'', JStr nid), (''name'', JStr ''Nodo principal''),
                            (''createdAt'', JNum (Finite t))]] \<and>
           printers s = [JObj [(''id'', JStr pid), (''name'', JStr pname), (''baseUrl'', JStr url),
                               (''nodeId'', JStr nid), (''createdAt'', JNum (Finite t))]] \<and>
           states s = None \<and>
           disk w' = Holds (snapshotJson s)"
proof -
  define w1 where "w1 = (if cache w = None then w else snd (now w))"
  define cur where "cur = fst (readSnapshotFromDisk w1)"
  define w2 where "w2 = snd (readSnapshotFromDisk w1)"
  have d1: "disk w1 = disk w" by (simp add: w1_def now_fields)
  from read_contents(2) [OF d1] none have nopr: "printers cur = []"
    by (simp add: cur_def)
  have "sanitized cur" by (simp add: cur_def read_sanitized)
  then have nost: "states cur = None" using nopr by (rule sanitized_no_printers)
  have "writable w2" using wr by (simp add: w2_def w1_def read_world now_fields)
  from seed_runs [OF nopr url this]
  obtain s v' nid pid pname t u where
    seed: "maybeSeedDefaults cur dflt w2 = (Inr s, v')"
    and n: "nodes s = [JObj [(''id'', JStr nid), (''name'', JStr ''Nodo principal''),
                            (''createdAt'', JNum (Finite t))]]"
    and p: "printers s = [JObj [(''id'', JStr pid), (''name'', JStr pname), (''baseUrl'', JStr url),
                               (''nodeId'', JStr nid), (''createdAt'', JNum (Finite t))]]"
    and st: "states s = states cur"
    and u: "updatedAt s = Finite u"
    and d: "disk v' = Holds (stringifyParse (snapshotJson s))"
    by blast
  from st nost have st': "states s = None" by simp
  have rt: "stringifyParse (snapshotJson s) = snapshotJson s"
    using n p st' u by (rule stringifyParse_seeded)
  have "getSnapshot dflt w = (Inr s, (snd (now v'))\<lparr>cache := Some (s, fst (now v') + CACHE_TTL_MS)\<rparr>)"
    unfolding getSnapshot_miss [OF miss]
    using seed by (simp add: Let_def split_beta w1_def cur_def w2_def)
  moreover have "disk ((snd (now v'))\<lparr>cache := Some (s, fst (now v') + CACHE_TTL_MS)\<rparr>) = Holds (snapshotJson s)"
    using d rt by (simp add: now_fields)
  ultimately show ?thesis using n p st' by blast
qed


theorem seeding_discards_stored_nodes_witness:
  "\<not> cacheFresh nodeOnlyWorld \<and>
   nodes (fst (readSnapshotFromDisk nodeOnlyWorld)) = [exampleNode] \<and>
   printers (fst (readSnapshotFromDisk nodeOnlyWorld)) = [] \<and>
   seedUrl (Some exampleDefaults) = Some ''http://10.0.0.5'' \<and>
   writable nodeOnlyWorld \<and>
   (\<exists>s w' nid pid pname t.
      getSnapshot (Some exampleDefaults) nodeOnlyWorld = (Inr s, w') \<and>
      nodes s = [JObj [(''id'', JStr nid), (''name'', JStr ''Nodo principal''),
                       (''createdAt'', JNum (Finite t))]] \<and>
      printers s = [JObj [(''id'', JStr pid), (''name'', JStr pname),
                          (''baseUrl'', JStr ''http://10.0.0.5''),
                          (''nodeId'', JStr nid), (''createdAt'', JNum (Finite t))]] \<and>
      states s = None \<and>
      disk w' = Holds (snapshotJson s))"
proof -
  have miss: "\<not> cacheFresh nodeOnlyWorld"
    by (simp add: cacheFresh_def nodeOnlyWorld_def exampleWorld_def)
  have some: "nodes (fst (readSnapshotFromDisk nodeOnlyWorld)) = [exampleNode]"
    by code_simp
  then have some': "nodes (fst (readSnapshotFromDisk nodeOnlyWorld)) \<noteq> []"
    by simp
  have none: "printers (fst (readSnapshotFromDisk nodeOnlyWorld)) = []"
    by code_simp
  have url: "seedUrl (Some exampleDefaults) = Some ''http://10.0.0.5''" "''http://10.0.0.5'' \<noteq> []"
    by (simp_all add: seedUrl_def exampleDefaults_def)
  have wr: "writable nodeOnlyWorld"
    by (simp add: nodeOnlyWorld_def exampleWorld_def)
  from seeding_discards_stored_nodes [OF miss some' none url wr] miss some none url(1) wr
  show ?thesis by blast
qed

section \<open>Merging reported states\<close>

lemma resanitize_fixed:
  assumes "sanitized m"
  shows "nodes (fst (sanitizeSnapshot (snapshotJson m) w)) = nodes m"
    and "printers (fst (sanitizeSnapshot (snapshotJson m) w)) = printers m"
    and "states (fst (sanitizeSnapshot (snapshotJson m) w)) = states m"
proof -
  show n: "nodes (fst (sanitizeSnapshot (snapshotJson m) w)) = nodes m"
    using assms by (simp add: resanitize_nodes sanitized_def)
  show p: "printers (fst (sanitizeSnapshot (snapshotJson m) w)) = printers m"
    using assms n by (simp add: resanitize_printers sanitized_def nodeIdsOf_def resanitize_nodes)
  then have ids: "printerIdsOf (fst (sanitizeSnapshot (snapshotJson m) w)) = printerIdsOf m"
    by (simp add: printerIdsOf_def)
  show "states (fst (sanitizeSnapshot (snapshotJson m) w)) = states m"
  proof (cases "states m")
    case None
    then show ?thesis by (simp add: resanitize_states)
  next
    case (Some kvs)
    with assms have "kvs \<noteq> []"
      and "\<forall>(printerId, state) \<in> set kvs. Some (JStr printerId) \<in> set (printerIdsOf m) \<and> isValidState state"
      by (simp_all add: sanitized_def)
    then have "filter (\<lambda>(printerId, state). Some (JStr printerId) \<in> set (printerIdsOf m) \<and> isValidState state) kvs = kvs"
      by (intro filter_True) auto
    with Some \<open>kvs \<noteq> []\<close> show ?thesis
      by (simp add: resanitize_states ids)
  qed
qed






lemma stateOf_cong: "states a = states b \<Longrightarrow> stateOf a = stateOf b"
  by (simp add: stateOf_def fun_eq_iff)







section \<open>Removing a node\<close>

lemma pruneStates_filter:
  "pruneStates remaining ks kvs =
     filter (\<lambda>(k, v). k \<notin> set ks \<or> (\<exists>printer \<in> set remaining. getField printer ''id'' = Some (JStr k))) kvs"
proof (induction ks arbitrary: kvs)
  case Nil
  then show ?case by simp
next
  case (Cons k ks)
  show ?case
  proof (cases "\<exists>printer \<in> set remaining. getField printer ''id'' = Some (JStr k)")
    case True
    then show ?thesis
      by (auto simp: Cons.IH intro!: filter_cong)
  next
    case False
    then show ?thesis
      by (auto simp: Cons.IH AList.delete_eq intro!: filter_cong)
  qed
qed

lemma pruneStates_own_keys:
  "pruneStates remaining (map fst kvs) kvs =
     filter (\<lambda>(k, v). Some (JStr k) \<in> set (map (\<lambda>printer. getField printer ''id'') remaining)) kvs"
  unfolding pruneStates_filter by (rule filter_cong) (force simp: image_iff)+

lemma map_of_filter_key:
  "map_of (filter (\<lambda>(k, v). P k) kvs) k = (if P k then map_of kvs k else None)"
  by (induction kvs) auto

lemma length_filter_same: "length (filter P xs) = length xs \<longleftrightarrow> (\<forall>x \<in> set xs. P x)"
proof -
  have "length (filter P xs) = length xs \<longleftrightarrow> length (filter (\<lambda>x. \<not> P x) xs) = 0"
    using sum_length_filter_compl [of P xs] by arith
  then show ?thesis by (simp add: filter_empty_conv)
qed

lemma removeNode_missing:
  assumes "nodeId' \<noteq> []"
    and "Some (JStr nodeId') \<notin> set (nodeIdsOf (fst (readSnapshotFromDisk w)))"
  shows "removeNode nodeId' w = (Inl (Error ''El nodo indicado no existe.''), snd (readSnapshotFromDisk w))"
proof -
  have "length (filter (\<lambda>node. getField node ''id'' \<noteq> Some (JStr nodeId')) (nodes (fst (readSnapshotFromDisk w))))
          = length (nodes (fst (readSnapshotFromDisk w)))"
    using assms(2) unfolding length_filter_same by (force simp: nodeIdsOf_def image_iff)
  then have "removeNodeMutator nodeId' (fst (readSnapshotFromDisk w)) (snd (readSnapshotFromDisk w))
       = (Inl (Error ''El nodo indicado no existe.''), snd (readSnapshotFromDisk w))"
    by (simp add: removeNodeMutator_def Let_def)
  from updateSnapshot_fails [of "removeNodeMutator nodeId'" w, OF this] assms(1) show ?thesis
    by (simp add: removeNode_def)
qed

lemma removeNode_result:
  assumes ne: "nodeId' \<noteq> []"
    and ex: "Some (JStr nodeId') \<in> set (nodeIdsOf (fst (readSnapshotFromDisk w)))"
    and wr: "writable w"
  shows "\<exists>s w'. removeNode nodeId' w = (Inr s, w') \<and>
           nodes s = filter (\<lambda>node. getField node ''id'' \<noteq> Some (JStr nodeId'))
                       (nodes (fst (readSnapshotFromDisk w))) \<and>
           printers s = filter (\<lambda>printer. getField printer ''nodeId'' \<noteq> Some (JStr nodeId'))
                          (printers (fst (readSnapshotFromDisk w))) \<and>
           (\<forall>k. stateOf s k = (if Some (JStr k) \<in> set (printerIdsOf s)
                               then stateOf (fst (readSnapshotFromDisk w)) k else None))"
proof -
  define cur where "cur = fst (readSnapshotFromDisk w)"
  define w1 where "w1 = snd (readSnapshotFromDisk w)"
  define nodes' where "nodes' = filter (\<lambda>node. getField node ''id'' \<noteq> Some (JStr nodeId')) (nodes cur)"
  define printers' where "printers' = filter (\<lambda>printer. getField printer ''nodeId'' \<noteq> Some (JStr nodeId')) (printers cur)"
  define keep where "keep = (\<lambda>(k :: string, v :: json). Some (JStr k) \<in> set (map (\<lambda>printer. getField printer ''id'') printers'))"
  define states' where "states' = (case states cur of None \<Rightarrow> None
      | Some kvs \<Rightarrow> if filter keep kvs = [] then None else Some (filter keep kvs))"
  define m where "m = \<lparr>nodes = nodes', printers = printers', states = states', updatedAt = updatedAt cur\<rparr>"
  have cur: "sanitized cur" by (simp add: cur_def read_sanitized)
  have "length nodes' \<noteq> length (nodes cur)"
    using ex unfolding nodes'_def length_filter_same cur_def [symmetric]
    by (auto simp: nodeIdsOf_def)
  then have mut: "removeNodeMutator nodeId' cur w1 = (Inr m, w1)"
    by (simp add: removeNodeMutator_def Let_def m_def nodes'_def printers'_def states'_def
        pruneStates_own_keys keep_def split: option.splits)
  have vn: "\<forall>node \<in> set nodes'. isValidNode node"
    using cur by (simp add: sanitized_def nodes'_def)
  have vp: "\<forall>printer \<in> set printers'. isValidPrinter printer (map (\<lambda>node. getField node ''id'') nodes')"
  proof
    fix printer
    assume "printer \<in> set printers'"
    then have mem: "printer \<in> set (printers cur)"
      and other: "getField printer ''nodeId'' \<noteq> Some (JStr nodeId')"
      by (simp_all add: printers'_def)
    from cur mem have valid: "isValidPrinter printer (nodeIdsOf cur)"
      by (simp add: sanitized_def)
    then have "getField printer ''nodeId'' \<in> set (nodeIdsOf cur)"
      by (simp add: isValidPrinter_def split: if_splits)
    then obtain node where "node \<in> set (nodes cur)" "getField node ''id'' = getField printer ''nodeId''"
      by (auto simp: nodeIdsOf_def)
    with other have "getField printer ''nodeId'' \<in> set (map (\<lambda>node. getField node ''id'') nodes')"
      by (force simp: nodes'_def image_iff)
    with valid show "isValidPrinter printer (map (\<lambda>node. getField node ''id'') nodes')"
      by (simp add: isValidPrinter_def split: if_splits)
  qed
  have vs: "case states' of None \<Rightarrow> True
            | Some kvs \<Rightarrow> kvs \<noteq> [] \<and>
                (\<forall>(k, v) \<in> set kvs. Some (JStr k) \<in> set (map (\<lambda>printer. getField printer ''id'') printers') \<and>
                                    isValidState v)"
    using cur by (auto simp: sanitized_def states'_def keep_def split: option.splits if_splits)
  from vn vp vs have "sanitized m"
    by (simp add: sanitized_def m_def nodeIdsOf_def printerIdsOf_def cong: option.case_cong)
  note fixed = resanitize_fixed [OF this]
  have "writable w1" using wr by (simp add: w1_def read_world)
  from updateSnapshot_succeeds [of "removeNodeMutator nodeId'" w m w1] mut this
  obtain s w' where run: "updateSnapshot (removeNodeMutator nodeId') w = (Inr s, w')"
    and s: "s = (fst (sanitizeSnapshot (snapshotJson m) w1))\<lparr>updatedAt := Finite (of_int (clock w1 (ticks w1)))\<rparr>"
    unfolding cur_def w1_def by blast
  from s fixed have n: "nodes s = nodes'" and p: "printers s = printers'" and st: "states s = states'"
    by (simp_all add: m_def)
  have "stateOf s k = (if Some (JStr k) \<in> set (printerIdsOf s) then stateOf cur k else None)" for k
  proof (cases "states cur")
    case None
    then show ?thesis by (simp add: stateOf_def st states'_def)
  next
    case (Some kvs)
    have "map_of (filter keep kvs) k = (if Some (JStr k) \<in> set (printerIdsOf s) then map_of kvs k else None)"
      unfolding keep_def printerIdsOf_def p by (rule map_of_filter_key)
    with Some show ?thesis
      by (auto simp: stateOf_def st states'_def)
  qed
  with run n p ne show ?thesis
    unfolding cur_def nodes'_def printers'_def by (auto simp: removeNode_def)
qed


lemma updateSnapshot_writable:
  assumes "updateSnapshot mutator w = (Inr s, w')"
  shows "writable w'"
proof -
  obtain r w2 where mut: "mutator (fst (readSnapshotFromDisk w)) (snd (readSnapshotFromDisk w)) = (r, w2)"
    by (cases "mutator (fst (readSnapshotFromDisk w)) (snd (readSnapshotFromDisk w))")
  show ?thesis
  proof (cases r)
    case (Inl e)
    with assms mut show ?thesis by (simp add: updateSnapshot_def split_beta)
  next
    case (Inr m)
    with assms mut show ?thesis
      by (cases "writable w2")
         (auto simp add: updateSnapshot_def split_beta Let_def resanitize_world now_def write_ok write_fail)
  qed
qed

lemma getField_stored:
  "getField (stringifyParse (snapshotJson s)) ''nodes'' = Some (JArr (map stringifyParse (nodes s)))"
  "getField (stringifyParse (snapshotJson s)) ''states'' =
     map_option (\<lambda>kvs. JObj (map (\<lambda>(k, v). (k, stringifyParse v)) kvs)) (states s)"
  by (simp_all add: snapshotJson_def split: option.splits)

lemma read_stored_nodes:
  assumes "disk w = Holds (stringifyParse (snapshotJson s))"
  shows "nodes (fst (readSnapshotFromDisk w)) = filter isValidNode (map stringifyParse (nodes s))"
  using assms by (simp add: readSnapshotFromDisk_def sanitize_nodes getField_stored)

lemma read_stored_keys:
  assumes "disk w = Holds (stringifyParse (snapshotJson s))"
  shows "set (stateKeys (fst (readSnapshotFromDisk w))) \<subseteq> set (stateKeys s)"
proof (cases "states s")
  case None
  with assms show ?thesis
    by (simp add: readSnapshotFromDisk_def stateKeys_def sanitize_states getField_stored)
next
  case (Some kvs)
  with assms show ?thesis
    by (force simp: readSnapshotFromDisk_def stateKeys_def sanitize_states getField_stored Let_def
              image_iff split: if_splits)
qed

lemma resanitize_inclusions:
  "set (printers (fst (sanitizeSnapshot (snapshotJson m) v))) \<subseteq> set (printers m)"
  "set (stateKeys (fst (sanitizeSnapshot (snapshotJson m) v))) \<subseteq> set (stateKeys m)"
proof -
  show "set (printers (fst (sanitizeSnapshot (snapshotJson m) v))) \<subseteq> set (printers m)"
    by (simp add: resanitize_printers)
  show "set (stateKeys (fst (sanitizeSnapshot (snapshotJson m) v))) \<subseteq> set (stateKeys m)"
    by (cases "states m") (force simp: stateKeys_def resanitize_states Let_def image_iff split: if_splits)+
qed

lemma valid_state_truthy: "isValidState v \<Longrightarrow> truthy v"
  by (simp add: isValidState_def split: if_splits)

lemma stateOf_None_iff: "stateOf s k = None \<longleftrightarrow> k \<notin> set (stateKeys s)"
  by (cases "states s") (simp_all add: stateOf_def stateKeys_def map_of_eq_None_iff)

text \<open>What the registration closure returns when it has to create the node.\<close>

lemma registerPrinterMutator_new:
  assumes run: "registerPrinterMutator input n b cur v = (Inr m, v')"
    and new: "case nodeId input of None \<Rightarrow> True
              | Some target \<Rightarrow> target = [] \<or> Some (JStr target) \<notin> set (nodeIdsOf cur)"
  shows "\<exists>nm. nm \<noteq> [] \<and>
           nodes m = nodes cur @ [JObj [(''id'', JStr (uuids v (drawn v))), (''name'', JStr nm),
                                       (''createdAt'', JNum (Finite (of_int (clock v (ticks v)))))]] \<and>
           printers m = printers cur @
              [JObj [(''id'', JStr (uuids v (Suc (drawn v)))), (''name'', JStr n), (''baseUrl'', JStr b),
                     (''nodeId'', JStr (uuids v (drawn v))),
                     (''createdAt'', JNum (Finite (of_int (clock v (Suc (ticks v))))))]] \<and>
           states m = (case states cur of
                         None \<Rightarrow> None
                       | Some kvs \<Rightarrow>
                           Some (case map_of kvs (uuids v (Suc (drawn v))) of
                                   Some x \<Rightarrow> if truthy x then AList.delete (uuids v (Suc (drawn v))) kvs else kvs
                                 | None \<Rightarrow> kvs))"
proof -
  from new have nx: "(case nodeId input of
                        None \<Rightarrow> None
                      | Some target \<Rightarrow>
                          if target \<noteq> [] \<and>
                             (\<exists>node \<in> set (nodes cur). getField node ''id'' = Some (JStr target))
                          then Some target else None) = None"
    by (force simp: nodeIdsOf_def image_iff split: option.splits)
  from run show ?thesis
    unfolding registerPrinterMutator_def Let_def nx
    by (auto simp: split_beta now_def createId_def split: if_splits option.splits)
qed

lemma register_then_remove:
  assumes reg: "registerPrinter input w = (Inr s1, w1)"
    and new: "case nodeId input of None \<Rightarrow> True
              | Some target \<Rightarrow> target = [] \<or>
                  Some (JStr target) \<notin> set (nodeIdsOf (fst (readSnapshotFromDisk w)))"
    and fresh: "Some (JStr (uuids w (drawn w))) \<notin> set (nodeIdsOf (fst (readSnapshotFromDisk w)))"
    and nonempty: "uuids w (drawn w) \<noteq> []"
  shows "\<exists>s2 w2. removeNode (uuids w (drawn w)) w1 = (Inr s2, w2) \<and>
           Some (JStr (uuids w (drawn w))) \<in> set (nodeIdsOf s1) \<and>
           (\<forall>printer \<in> set (printers s2). getField printer ''nodeId'' \<noteq> Some (JStr (uuids w (drawn w)))) \<and>
           (\<forall>printer \<in> set (printers s1).
              getField printer ''nodeId'' = Some (JStr (uuids w (drawn w))) \<longrightarrow>
              (\<forall>k. getField printer ''id'' = Some (JStr k) \<longrightarrow> stateOf s2 k = None))"
proof -
  define cur where "cur = fst (readSnapshotFromDisk w)"
  define v where "v = snd (readSnapshotFromDisk w)"
  define newId where "newId = uuids w (drawn w)"
  define pid where "pid = uuids w (Suc (drawn w))"
  define n where "n = trim (name input)"
  define b where "b = trim (baseUrl input)"
  have cur: "sanitized cur" by (simp add: cur_def read_sanitized)
  have v: "uuids v = uuids w" "drawn v = drawn w"
    by (simp_all add: v_def read_world)
  from reg have upd: "updateSnapshot (registerPrinterMutator input n b) w = (Inr s1, w1)"
    by (simp add: registerPrinter_def Let_def n_def b_def split: if_splits)
  from updateSnapshot_Inr [OF upd]
  obtain m v2 t where mut: "registerPrinterMutator input n b cur v = (Inr m, v2)"
    and s1: "s1 = (fst (sanitizeSnapshot (snapshotJson m) v2))\<lparr>updatedAt := Finite (of_int t)\<rparr>"
    and d1: "disk w1 = Holds (stringifyParse (snapshotJson s1))"
    unfolding cur_def v_def by blast
  have wr1: "writable w1" using upd by (rule updateSnapshot_writable)
  from registerPrinterMutator_new [OF mut] new
  obtain nm where nm: "nm \<noteq> []"
    and mn: "nodes m = nodes cur @ [JObj [(''id'', JStr newId), (''name'', JStr nm),
                                       (''createdAt'', JNum (Finite (of_int (clock v (ticks v)))))]]"
    and mp: "printers m = printers cur @
              [JObj [(''id'', JStr pid), (''name'', JStr n), (''baseUrl'', JStr b),
                     (''nodeId'', JStr newId),
                     (''createdAt'', JNum (Finite (of_int (clock v (Suc (ticks v))))))]]"
    and ms: "states m = (case states cur of
                         None \<Rightarrow> None
                       | Some kvs \<Rightarrow>
                           Some (case map_of kvs pid of
                                   Some x \<Rightarrow> if truthy x then AList.delete pid kvs else kvs
                                 | None \<Rightarrow> kvs))"
    unfolding cur_def [symmetric] v newId_def pid_def by blast
  define newNode where "newNode = JObj [(''id'', JStr newId), (''name'', JStr nm),
                                       (''createdAt'', JNum (Finite (of_int (clock v (ticks v)))))]"
  have valid: "isValidNode newNode" and same: "stringifyParse newNode = newNode"
    and nid: "getField newNode ''id'' = Some (JStr newId)"
    using nm nonempty by (simp_all add: newNode_def isValidNode_def newId_def)
  have in1: "newNode \<in> set (nodes s1)"
    using valid mn by (simp add: s1 resanitize_nodes newNode_def)
  then have reg_node: "Some (JStr newId) \<in> set (nodeIdsOf s1)"
    using nid by (force simp: nodeIdsOf_def image_iff)
  from in1 have "newNode \<in> set (nodes (fst (readSnapshotFromDisk w1)))"
    using valid same by (force simp: read_stored_nodes [OF d1] image_iff)
  then have ex: "Some (JStr newId) \<in> set (nodeIdsOf (fst (readSnapshotFromDisk w1)))"
    using nid by (force simp: nodeIdsOf_def image_iff)
  have ne: "newId \<noteq> []" using nonempty by (simp add: newId_def)
  from removeNode_result [OF ne ex wr1]
  obtain s2 w2 where rm: "removeNode newId w1 = (Inr s2, w2)"
    and p2: "printers s2 = filter (\<lambda>printer. getField printer ''nodeId'' \<noteq> Some (JStr newId))
                          (printers (fst (readSnapshotFromDisk w1)))"
    and st2: "\<And>k. stateOf s2 k = (if Some (JStr k) \<in> set (printerIdsOf s2)
                               then stateOf (fst (readSnapshotFromDisk w1)) k else None)"
    by blast
  have nopid_m: "pid \<notin> set (stateKeys m)"
  proof (cases "states cur")
    case None
    with ms show ?thesis by (simp add: stateKeys_def)
  next
    case (Some kvs)
    show ?thesis
    proof (cases "map_of kvs pid")
      case None
      with Some ms show ?thesis
        by (simp add: stateKeys_def map_of_eq_None_iff)
    next
      case (Some x)
      then have "(pid, x) \<in> set kvs" by (rule map_of_SomeD)
      with cur \<open>states cur = Some kvs\<close> have "isValidState x"
        by (auto simp: sanitized_def)
      then have "truthy x" by (rule valid_state_truthy)
      with Some \<open>states cur = Some kvs\<close> ms show ?thesis
        by (simp add: stateKeys_def AList.delete_notin_dom)
    qed
  qed
  have "set (stateKeys s1) \<subseteq> set (stateKeys m)"
    using resanitize_inclusions(2) [of m v2] by (simp add: s1)
  with nopid_m read_stored_keys [OF d1] have "pid \<notin> set (stateKeys (fst (readSnapshotFromDisk w1)))"
    by blast
  then have nopid: "stateOf (fst (readSnapshotFromDisk w1)) pid = None"
    by (simp add: stateOf_None_iff)
  have gone: "stateOf s2 k = None"
    if mem: "printer \<in> set (printers s1)"
      and under: "getField printer ''nodeId'' = Some (JStr newId)"
      and id: "getField printer ''id'' = Some (JStr k)" for printer k
  proof -
    from mem resanitize_inclusions(1) [of m v2] have "printer \<in> set (printers m)"
      by (auto simp: s1)
    with mp have "printer \<in> set (printers cur) \<or>
        printer = JObj [(''id'', JStr pid), (''name'', JStr n), (''baseUrl'', JStr b),
                     (''nodeId'', JStr newId),
                     (''createdAt'', JNum (Finite (of_int (clock v (Suc (ticks v))))))]"
      by auto
    then show ?thesis
    proof
      assume "printer \<in> set (printers cur)"
      with cur have "getField printer ''nodeId'' \<in> set (nodeIdsOf cur)"
        by (auto simp: sanitized_def isValidPrinter_def split: if_splits)
      with under fresh show ?thesis
        by (simp add: cur_def newId_def)
    next
      assume "printer = JObj [(''id'', JStr pid), (''name'', JStr n), (''baseUrl'', JStr b),
                     (''nodeId'', JStr newId),
                     (''createdAt'', JNum (Finite (of_int (clock v (Suc (ticks v))))))]"
      with id have "k = pid" by simp
      with st2 [of k] nopid show ?thesis by simp
    qed
  qed
  from rm reg_node p2 gone show ?thesis
    unfolding newId_def by auto
qed

text \<open>
  C7 as stated fails in two places. With the empty string as \<open>nodeId\<close>, which is the id of
  no node, \<open>removeNode\<close> fails with the "identifier required" error, not with the
  not-found error. And in \<open>sharedIdStored\<close>, where the printer on node \<open>n1\<close> and a printer on
  node \<open>n2\<close> share the id \<open>p1\<close>, removing \<open>n1\<close> removes its printer but keeps the state entry
  keyed by that printer's id.
\<close>

theorem removeNode_claim_fails:
  "Some (JStr []) \<notin> set (nodeIdsOf (fst (readSnapshotFromDisk exampleWorld))) \<and>
   fst (removeNode [] exampleWorld) = Inl (Error ''Se requiere el identificador del nodo.'') \<and>
   fst (removeNode [] exampleWorld) \<noteq> Inl (Error ''El nodo indicado no existe.'') \<and>
   printers (fst (readSnapshotFromDisk sharedIdWorld)) = [examplePrinter, twinPrinter] \<and>
   getField examplePrinter ''nodeId'' = Some (JStr ''n1'') \<and>
   getField examplePrinter ''id'' = Some (JStr ''p1'') \<and>
   fst (removeNode ''n1'' sharedIdWorld) = Inr sharedIdRemoved \<and>
   stateOf sharedIdRemoved ''p1'' = Some exampleState"
  by code_simp

text \<open>
  C7, amended. For every stored snapshot and every \<open>nodeId\<close>: an empty \<open>nodeId\<close> fails with
  the "identifier required" error and changes nothing; a non-empty \<open>nodeId\<close> that is the
  id of no node fails with the not-found error; otherwise, when the file can be written,
  the returned snapshot has the other nodes, the printers whose \<open>nodeId\<close> is another one,
  and exactly the previous state entries whose key is the id of a remaining printer (so
  an entry keyed by a removed printer's id is dropped unless a remaining printer has the
  same id). Consequently, when a registration creates a node whose generated id is
  non-empty and not yet the id of a node, removing that node afterwards succeeds, leaves
  no printer referencing it, and leaves no state entry for any printer that was under it.
\<close>

theorem removeNode_cascades:
  "(nodeId' = [] \<longrightarrow>
      removeNode nodeId' w = (Inl (Error ''Se requiere el identificador del nodo.''), w)) \<and>
   (nodeId' \<noteq> [] \<and> Some (JStr nodeId') \<notin> set (nodeIdsOf (fst (readSnapshotFromDisk w))) \<longrightarrow>
      fst (removeNode nodeId' w) = Inl (Error ''El nodo indicado no existe.'') \<and>
      disk (snd (removeNode nodeId' w)) = disk w \<and>
      cache (snd (removeNode nodeId' w)) = cache w) \<and>
   (nodeId' \<noteq> [] \<and> Some (JStr nodeId') \<in> set (nodeIdsOf (fst (readSnapshotFromDisk w))) \<and> writable w \<longrightarrow>
      (\<exists>s w'. removeNode nodeId' w = (Inr s, w') \<and>
         nodes s = filter (\<lambda>node. getField node ''id'' \<noteq> Some (JStr nodeId'))
                     (nodes (fst (readSnapshotFromDisk w))) \<and>
         printers s = filter (\<lambda>printer. getField printer ''nodeId'' \<noteq> Some (JStr nodeId'))
                        (printers (fst (readSnapshotFromDisk w))) \<and>
         (\<forall>k. stateOf s k = (if Some (JStr k) \<in> set (printerIdsOf s)
                             then stateOf (fst (readSnapshotFromDisk w)) k else None)))) \<and>
   (registerPrinter input w = (Inr s1, w1) \<and>
    (case nodeId input of None \<Rightarrow> True
     | Some target \<Rightarrow> target = [] \<or>
         Some (JStr target) \<notin> set (nodeIdsOf (fst (readSnapshotFromDisk w)))) \<and>
    Some (JStr (uuids w (drawn w))) \<notin> set (nodeIdsOf (fst (readSnapshotFromDisk w))) \<and>
    uuids w (drawn w) \<noteq> [] \<longrightarrow>
      (\<exists>s2 w2. removeNode (uuids w (drawn w)) w1 = (Inr s2, w2) \<and>
         Some (JStr (uuids w (drawn w))) \<in> set (nodeIdsOf s1) \<and>
         (\<forall>printer \<in> set (printers s2).
            getField printer ''nodeId'' \<noteq> Some (JStr (uuids w (drawn w)))) \<and>
         (\<forall>printer \<in> set (printers s1).
            getField printer ''nodeId'' = Some (JStr (uuids w (drawn w))) \<longrightarrow>
            (\<forall>k. getField printer ''id'' = Some (JStr k) \<longrightarrow> stateOf s2 k = None))))"
proof (intro conjI impI)
  assume "nodeId' = []"
  then show "removeNode nodeId' w = (Inl (Error ''Se requiere el identificador del nodo.''), w)"
    by (simp add: removeNode_def)
next
  assume a: "nodeId' \<noteq> [] \<and> Some (JStr nodeId') \<notin> set (nodeIdsOf (fst (readSnapshotFromDisk w)))"
  then have r: "removeNode nodeId' w =
      (Inl (Error ''El nodo indicado no existe.''), snd (readSnapshotFromDisk w))"
    by (intro removeNode_missing) simp_all
  then show "fst (removeNode nodeId' w) = Inl (Error ''El nodo indicado no existe.'')"
    by simp
  from r show "disk (snd (removeNode nodeId' w)) = disk w"
    by (simp add: read_world)
  from r show "cache (snd (removeNode nodeId' w)) = cache w"
    by (simp add: read_world)
next
  assume "nodeId' \<noteq> [] \<and> Some (JStr nodeId') \<in> set (nodeIdsOf (fst (readSnapshotFromDisk w))) \<and> writable w"
  then show "\<exists>s w'. removeNode nodeId' w = (Inr s, w') \<and>
         nodes s = filter (\<lambda>node. getField node ''id'' \<noteq> Some (JStr nodeId'))
                     (nodes (fst (readSnapshotFromDisk w))) \<and>
         printers s = filter (\<lambda>printer. getField printer ''nodeId'' \<noteq> Some (JStr nodeId'))
                        (printers (fst (readSnapshotFromDisk w))) \<and>
         (\<forall>k. stateOf s k = (if Some (JStr k) \<in> set (printerIdsOf s)
                             then stateOf (fst (readSnapshotFromDisk w)) k else None))"
    by (intro removeNode_result) simp_all
next
  assume "registerPrinter input w = (Inr s1, w1) \<and>
    (case nodeId input of None \<Rightarrow> True
     | Some target \<Rightarrow> target = [] \<or>
         Some (JStr target) \<notin> set (nodeIdsOf (fst (readSnapshotFromDisk w)))) \<and>
    Some (JStr (uuids w (drawn w))) \<notin> set (nodeIdsOf (fst (readSnapshotFromDisk w))) \<and>
    uuids w (drawn w) \<noteq> []"
  then show "\<exists>s2 w2. removeNode (uuids w (drawn w)) w1 = (Inr s2, w2) \<and>
         Some (JStr (uuids w (drawn w))) \<in> set (nodeIdsOf s1) \<and>
         (\<forall>printer \<in> set (printers s2).
            getField printer ''nodeId'' \<noteq> Some (JStr (uuids w (drawn w)))) \<and>
         (\<forall>printer \<in> set (printers s1).
            getField printer ''nodeId'' = Some (JStr (uuids w (drawn w))) \<longrightarrow>
            (\<forall>k. getField printer ''id'' = Some (JStr k) \<longrightarrow> stateOf s2 k = None))"
    by (intro register_then_remove [of input]) (simp, simp, simp, simp)
qed

theorem removeNode_cascades_witness:
  "Some (JStr ''n1'') \<in> set (nodeIdsOf (fst (readSnapshotFromDisk exampleWorld))) \<and>
   writable exampleWorld \<and>
   (\<exists>s w'. removeNode ''n1'' exampleWorld = (Inr s, w') \<and> nodes s = [] \<and> printers s = []) \<and>
   fst (registerPrinter exampleRegistration exampleWorld) = Inr registeredSnapshot \<and>
   nodeId exampleRegistration = None \<and>
   uuids exampleWorld (drawn exampleWorld) = ''id-0'' \<and>
   (\<exists>s2 w2. removeNode ''id-0'' (snd (registerPrinter exampleRegistration exampleWorld)) = (Inr s2, w2) \<and>
      stateOf s2 ''id-1'' = None)"
proof -
  have cur: "nodes (fst (readSnapshotFromDisk exampleWorld)) = [exampleNode]"
    "printers (fst (readSnapshotFromDisk exampleWorld)) = [examplePrinter]"
    "nodeIdsOf (fst (readSnapshotFromDisk exampleWorld)) = [Some (JStr ''n1'')]"
    by code_simp+
  have wr: "writable exampleWorld"
    by (simp add: exampleWorld_def)
  have id0: "uuids exampleWorld (drawn exampleWorld) = ''id-0''"
    by code_simp
  have regf: "fst (registerPrinter exampleRegistration exampleWorld) = Inr registeredSnapshot"
    by code_simp
  then have reg: "registerPrinter exampleRegistration exampleWorld =
      (Inr registeredSnapshot, snd (registerPrinter exampleRegistration exampleWorld))"
    by (simp add: prod_eq_iff)
  have none: "nodeId exampleRegistration = None"
    by (simp add: exampleRegistration_def)
  note all = removeNode_cascades [of "''n1''" exampleWorld exampleRegistration registeredSnapshot
      "snd (registerPrinter exampleRegistration exampleWorld)"]
  from all cur wr
  obtain s w' where "removeNode ''n1'' exampleWorld = (Inr s, w')"
    and "nodes s = filter (\<lambda>node. getField node ''id'' \<noteq> Some (JStr ''n1'')) [exampleNode]"
    and "printers s = filter (\<lambda>printer. getField printer ''nodeId'' \<noteq> Some (JStr ''n1'')) [examplePrinter]"
    by auto
  then have first: "\<exists>s w'. removeNode ''n1'' exampleWorld = (Inr s, w') \<and> nodes s = [] \<and> printers s = []"
    by (simp add: exampleNode_def examplePrinter_def)
  from all reg none cur id0
  obtain s2 w2 where rm: "removeNode ''id-0'' (snd (registerPrinter exampleRegistration exampleWorld)) = (Inr s2, w2)"
    and gone: "\<forall>printer \<in> set (printers registeredSnapshot).
            getField printer ''nodeId'' = Some (JStr ''id-0'') \<longrightarrow>
            (\<forall>k. getField printer ''id'' = Some (JStr k) \<longrightarrow> stateOf s2 k = None)"
    by auto
  from gone have "stateOf s2 ''id-1'' = None"
    by (simp add: registeredSnapshot_def examplePrinter_def)
  with rm have second: "\<exists>s2 w2. removeNode ''id-0'' (snd (registerPrinter exampleRegistration exampleWorld)) = (Inr s2, w2) \<and>
      stateOf s2 ''id-1'' = None"
    by blast
  from first second cur wr regf none id0 show ?thesis by simp
qed

section \<open>The derived display state\<close>

lemma startsWith_iff: "startsWith s needle \<longleftrightarrow> (\<exists>rest. s = needle @ rest)"
  by (induction s needle rule: startsWith.induct) auto

lemma includes_str_iff: "includes_str s needle \<longleftrightarrow> (\<exists>before after. s = before @ needle @ after)"
proof (induction s)
  case Nil
  then show ?case by auto
next
  case (Cons x xs)
  show ?case
  proof
    assume "includes_str (x # xs) needle"
    then consider "startsWith (x # xs) needle" | "includes_str xs needle" by auto
    then show "\<exists>before after. x # xs = before @ needle @ after"
    proof cases
      case 1
      then obtain rest where "x # xs = needle @ rest" by (auto simp: startsWith_iff)
      then have "x # xs = [] @ needle @ rest" by simp
      then show ?thesis by blast
    next
      case 2
      with Cons obtain before after where "xs = before @ needle @ after" by blast
      then have "x # xs = (x # before) @ needle @ after" by simp
      then show ?thesis by blast
    qed
  next
    assume "\<exists>before after. x # xs = before @ needle @ after"
    then obtain before after where eq: "x # xs = before @ needle @ after" by blast
    show "includes_str (x # xs) needle"
    proof (cases before)
      case Nil
      with eq have "startsWith (x # xs) needle" by (auto simp: startsWith_iff)
      then show ?thesis by simp
    next
      case (Cons b bs)
      with eq have "xs = bs @ needle @ after" by simp
      with Cons.IH have "includes_str xs needle" by blast
      then show ?thesis by simp
    qed
  qed
qed

lemma includes_lowered:
  "includes_str (toLowerCase r) (map toLowerChar keyword) \<longleftrightarrow> containsIgnoringCase r keyword"
proof
  assume "includes_str (toLowerCase r) (map toLowerChar keyword)"
  then obtain before after where eq: "map toLowerChar r = before @ (map toLowerChar keyword @ after)"
    by (auto simp: includes_str_iff toLowerCase_def)
  from eq obtain a rest where r: "r = a @ rest"
    and rest: "map toLowerChar rest = map toLowerChar keyword @ after"
    using map_eq_append_conv [of toLowerChar r before "map toLowerChar keyword @ after"] by metis
  from rest obtain b c where "rest = b @ c" and "map toLowerChar b = map toLowerChar keyword"
    using map_eq_append_conv [of toLowerChar rest "map toLowerChar keyword" after] by metis
  with r show "containsIgnoringCase r keyword"
    unfolding containsIgnoringCase_def by blast
next
  assume "containsIgnoringCase r keyword"
  then obtain before stretch after where "r = before @ stretch @ after"
    and "map toLowerChar stretch = map toLowerChar keyword"
    unfolding containsIgnoringCase_def by blast
  then have "toLowerCase r = map toLowerChar before @ map toLowerChar keyword @ map toLowerChar after"
    by (simp add: toLowerCase_def)
  then show "includes_str (toLowerCase r) (map toLowerChar keyword)"
    unfolding includes_str_iff by blast
qed

lemma keywords_lower:
  "map toLowerChar ''print'' = ''print''"
  "map toLowerChar ''complete'' = ''complete''"
  "map toLowerChar ''done'' = ''done''"
  "map toLowerChar ''finish'' = ''finish''"
  "map toLowerChar ''pause'' = ''pause''"
  "map toLowerChar ''standby'' = ''standby''"
  "map toLowerChar ''idle'' = ''idle''"
  "map toLowerChar ''ready'' = ''ready''"
  "map toLowerChar ''error'' = ''error''"
  "map toLowerChar ''fault'' = ''fault''"
  "map toLowerChar ''halt'' = ''halt''"
  by code_simp+

lemma includes_keyword:
  "includes_str (toLowerCase r) ''print'' = containsIgnoringCase r ''print''"
  "includes_str (toLowerCase r) ''complete'' = containsIgnoringCase r ''complete''"
  "includes_str (toLowerCase r) ''done'' = containsIgnoringCase r ''done''"
  "includes_str (toLowerCase r) ''finish'' = containsIgnoringCase r ''finish''"
  "includes_str (toLowerCase r) ''pause'' = containsIgnoringCase r ''pause''"
  "includes_str (toLowerCase r) ''standby'' = containsIgnoringCase r ''standby''"
  "includes_str (toLowerCase r) ''idle'' = containsIgnoringCase r ''idle''"
  "includes_str (toLowerCase r) ''ready'' = containsIgnoringCase r ''ready''"
  "includes_str (toLowerCase r) ''error'' = containsIgnoringCase r ''error''"
  "includes_str (toLowerCase r) ''fault'' = containsIgnoringCase r ''fault''"
  "includes_str (toLowerCase r) ''halt'' = containsIgnoringCase r ''halt''"
  using includes_lowered [of r "''print''"] includes_lowered [of r "''complete''"]
    includes_lowered [of r "''done''"] includes_lowered [of r "''finish''"]
    includes_lowered [of r "''pause''"] includes_lowered [of r "''standby''"]
    includes_lowered [of r "''idle''"] includes_lowered [of r "''ready''"]
    includes_lowered [of r "''error''"] includes_lowered [of r "''fault''"]
    includes_lowered [of r "''halt''"]
  unfolding keywords_lower by blast+

text \<open>
  C5. For every raw status string, \<open>resolveStateDisplay\<close> yields the variant the ordered,
  case-insensitive keyword matching of the specification yields (\<open>specVariant\<close>): print;
  else complete, done or finish; else pause; else standby, idle or ready; else error,
  fault or halt; else unknown. A missing or empty string yields the fixed label
  \<open>Desconocido\<close>, and a non-empty string that contains no keyword is itself the label. In
  particular the strings \<open>Printing layer 12\<close>, \<open>Ready\<close> and \<open>Halted by error\<close> yield
  printing, idle and error.
\<close>

theorem resolveStateDisplay_follows_spec:
  "variant (resolveStateDisplay raw) = specVariant raw \<and>
   (raw = None \<or> raw = Some [] \<longrightarrow> label (resolveStateDisplay raw) = ''Desconocido'') \<and>
   (\<forall>r. raw = Some r \<and> r \<noteq> [] \<and> specVariant raw = VUnknown \<longrightarrow>
        label (resolveStateDisplay raw) = r) \<and>
   variant (resolveStateDisplay (Some ''Printing layer 12'')) = VPrinting \<and>
   variant (resolveStateDisplay (Some ''Ready'')) = VIdle \<and>
   variant (resolveStateDisplay (Some ''Halted by error'')) = VError"
proof (intro conjI allI impI)
  show v: "variant (resolveStateDisplay raw) = specVariant raw"
    by (simp add: resolveStateDisplay_def specVariant_def Let_def includes_keyword
          split: option.splits)
  show "label (resolveStateDisplay raw) = ''Desconocido''" if "raw = None \<or> raw = Some []"
    using that by (auto simp: resolveStateDisplay_def)
  show "label (resolveStateDisplay raw) = r"
    if "raw = Some r \<and> r \<noteq> [] \<and> specVariant raw = VUnknown" for r
    using that
    by (auto simp: resolveStateDisplay_def specVariant_def Let_def includes_keyword
          split: if_splits)
  show "variant (resolveStateDisplay (Some ''Printing layer 12'')) = VPrinting"
    by code_simp
  show "variant (resolveStateDisplay (Some ''Ready'')) = VIdle"
    by code_simp
  show "variant (resolveStateDisplay (Some ''Halted by error'')) = VError"
    by code_simp
qed

theorem resolveStateDisplay_follows_spec_witness:
  "specVariant (Some ''Busy'') = VUnknown \<and>
   label (resolveStateDisplay (Some ''Busy'')) = ''Busy'' \<and>
   specVariant (Some ''PAUSED at layer 3'') = VPaused \<and>
   label (resolveStateDisplay (Some [])) = ''Desconocido''"
proof -
  have busy: "variant (resolveStateDisplay (Some ''Busy'')) = VUnknown"
    by code_simp
  have paused: "variant (resolveStateDisplay (Some ''PAUSED at layer 3'')) = VPaused"
    by code_simp
  from resolveStateDisplay_follows_spec [of "Some ''Busy''"] busy
  have a: "specVariant (Some ''Busy'') = VUnknown" "label (resolveStateDisplay (Some ''Busy'')) = ''Busy''"
    by simp_all
  from resolveStateDisplay_follows_spec [of "Some ''PAUSED at layer 3''"] paused
  have b: "specVariant (Some ''PAUSED at layer 3'') = VPaused"
    by simp
  from resolveStateDisplay_follows_spec [of "Some []"]
  have c: "label (resolveStateDisplay (Some [])) = ''Desconocido''"
    by simp
  from a b c show ?thesis by simp
qed

section \<open>Progress normalization\<close>

text \<open>The exponent of a number other than zero.\<close>

lemma exponentOf_bounds:
  assumes "x \<noteq> 0"
  shows "2 powi exponentOf x \<le> \<bar>x\<bar>" and "\<bar>x\<bar> < 2 powi (exponentOf x + 1)"
proof -
  define a where "a = \<bar>x\<bar>"
  with assms have pos: "0 < a" by simp
  have "2 powi exponentOf x \<le> a \<and> a < 2 powi (exponentOf x + 1)"
  proof (cases "1 \<le> a")
    case True
    define n where "n = \<lfloor>a\<rfloor>"
    from True have n: "1 \<le> n" by (simp add: n_def le_floor_iff)
    then have b: "2 ^ nat (bitlen n - 1) \<le> n" "n < 2 ^ nat (bitlen n)"
      using bitlen_bounds [of n] by simp_all
    from n have bl: "1 \<le> bitlen n"
      by (simp add: bitlen_alt_def)
    have e: "exponentOf x = bitlen n - 1"
      using True by (simp add: exponentOf_def Let_def a_def n_def)
    have "(2::real) powi (bitlen n - 1) = of_int (2 ^ nat (bitlen n - 1))"
      using bl by (simp add: power_int_def)
    also have "\<dots> \<le> of_int n" using b(1) by (simp only: of_int_le_iff)
    also have "\<dots> \<le> a" by (simp add: n_def)
    finally have lo: "2 powi (bitlen n - 1) \<le> a" .
    have "a < of_int (n + 1)" by (simp add: n_def)
    also have "\<dots> \<le> of_int (2 ^ nat (bitlen n))"
      using b(2) by (simp only: of_int_le_iff)
    also have "\<dots> = (2::real) powi (bitlen n)"
      using bl by (simp add: power_int_def)
    finally have "a < 2 powi (bitlen n)" .
    with lo e show ?thesis by simp
  next
    case False
    define c where "c = \<lceil>1 / a\<rceil>"
    define m where "m = bitlen (c - 1)"
    from False pos have "1 < 1 / a" by simp
    then have c: "2 \<le> c" by (simp add: c_def le_ceiling_iff)
    then have b: "2 ^ nat (m - 1) \<le> c - 1" "c - 1 < 2 ^ nat m"
      using bitlen_bounds [of "c - 1"] by (simp_all add: m_def)
    from c have bl: "1 \<le> m"
      by (simp add: bitlen_alt_def m_def)
    have e: "exponentOf x = - m"
      using False by (simp add: exponentOf_def Let_def a_def m_def c_def)
    have "1 / a \<le> of_int c" by (simp add: c_def)
    also have "\<dots> \<le> of_int (2 ^ nat m)"
      using b(2) by (simp only: of_int_le_iff)
    also have "\<dots> = 2 ^ nat m" by simp
    finally have "1 / a \<le> 2 ^ nat m" .
    with pos have "1 / 2 ^ nat m \<le> a"
      by (simp add: field_simps)
    moreover have "(2::real) powi (- m) = 1 / 2 ^ nat m"
      using bl by (simp add: power_int_def field_simps)
    ultimately have lo: "2 powi (- m) \<le> a" by simp
    have "(2::real) ^ nat (m - 1) = of_int (2 ^ nat (m - 1))" by simp
    also have "\<dots> \<le> of_int (c - 1)" using b(1) by (simp only: of_int_le_iff)
    also have "\<dots> < 1 / a" unfolding c_def by linarith
    finally have "2 ^ nat (m - 1) < 1 / a" .
    with pos have "a < 1 / 2 ^ nat (m - 1)"
      by (simp add: field_simps)
    moreover have "(2::real) powi (- m + 1) = 1 / 2 ^ nat (m - 1)"
      using bl by (simp add: power_int_def field_simps nat_diff_distrib)
    ultimately have "a < 2 powi (- m + 1)" by simp
    with lo e show ?thesis by simp
  qed
  then show "2 powi exponentOf x \<le> \<bar>x\<bar>" and "\<bar>x\<bar> < 2 powi (exponentOf x + 1)"
    by (simp_all add: a_def)
qed

lemma roundHalfEven_error: "\<bar>of_int (roundHalfEven z) - z\<bar> \<le> 1 / 2"
  unfolding roundHalfEven_def Let_def by (auto; linarith)

lemma roundHalfEven_sign:
  "0 \<le> z \<Longrightarrow> 0 \<le> roundHalfEven z" "z \<le> 0 \<Longrightarrow> roundHalfEven z \<le> 0"
  unfolding roundHalfEven_def Let_def by (auto; linarith)+

lemma ulpOf_pos: "0 < ulpOf x"
  by (simp add: ulpOf_def)

lemma nearestDouble_error: "\<bar>nearestDouble x - x\<bar> \<le> ulpOf x / 2"
proof (cases "x = 0")
  case True
  then show ?thesis using ulpOf_pos [of x] by (simp add: nearestDouble_def)
next
  case False
  define u where "u = ulpOf x"
  have u: "0 < u" by (simp add: u_def ulpOf_pos)
  have "nearestDouble x - x = (of_int (roundHalfEven (x / u)) - x / u) * u"
    using False u by (simp add: nearestDouble_def u_def field_simps)
  then have "\<bar>nearestDouble x - x\<bar> = \<bar>of_int (roundHalfEven (x / u)) - x / u\<bar> * u"
    using u by (simp add: abs_mult)
  also have "\<dots> \<le> 1 / 2 * u"
    using roundHalfEven_error [of "x / u"] u by (intro mult_right_mono) simp_all
  finally show ?thesis by (simp add: u_def)
qed

lemma nearestDouble_sign:
  "0 \<le> x \<Longrightarrow> 0 \<le> nearestDouble x" "x \<le> 0 \<Longrightarrow> nearestDouble x \<le> 0"
proof -
  have u: "0 < ulpOf x" by (rule ulpOf_pos)
  show "0 \<le> nearestDouble x" if "0 \<le> x"
    using that u roundHalfEven_sign(1) [of "x / ulpOf x"]
    by (simp add: nearestDouble_def)
  show "nearestDouble x \<le> 0" if "x \<le> 0"
    using that u roundHalfEven_sign(2) [of "x / ulpOf x"]
    by (simp add: nearestDouble_def mult_le_0_iff divide_le_0_iff)
qed

lemma exponentOf_less:
  assumes "x \<noteq> 0" and "\<bar>x\<bar> < 2 powi k"
  shows "exponentOf x < k"
proof (rule ccontr)
  assume "\<not> exponentOf x < k"
  then have "(2::real) powi k \<le> 2 powi exponentOf x"
    by (intro power_int_increasing) simp_all
  with exponentOf_bounds(1) [OF assms(1)] assms(2) show False by simp
qed

lemma ulpOf_small:
  assumes "x \<noteq> 0" and "\<bar>x\<bar> \<le> 100"
  shows "ulpOf x \<le> 1 / 2 ^ 46"
proof -
  have "\<bar>x\<bar> < 2 powi 7" using assms(2) by simp
  from exponentOf_less [OF assms(1) this] have "max (exponentOf x) (- 1022) - 52 \<le> - 46"
    by simp
  then have "ulpOf x \<le> 2 powi (- 46)"
    unfolding ulpOf_def by (intro power_int_increasing) simp_all
  then show ?thesis by (simp add: power_int_minus field_simps)
qed

lemma exponentOf_unique:
  assumes "2 powi k \<le> \<bar>x\<bar>" and "\<bar>x\<bar> < 2 powi (k + 1)"
  shows "exponentOf x = k"
proof -
  have nz: "x \<noteq> 0"
  proof
    assume "x = 0"
    with assms(1) have "(2::real) powi k \<le> 0" by simp
    moreover have "0 < (2::real) powi k" by simp
    ultimately show False by linarith
  qed
  from exponentOf_less [OF nz assms(2)] have "exponentOf x \<le> k" by simp
  moreover have "k \<le> exponentOf x"
  proof (rule ccontr)
    assume "\<not> k \<le> exponentOf x"
    then have "(2::real) powi (exponentOf x + 1) \<le> 2 powi k"
      by (intro power_int_increasing) simp_all
    with exponentOf_bounds(2) [OF nz] assms(1) show False by simp
  qed
  ultimately show ?thesis by simp
qed

lemma roundHalfEven_int [simp]: "roundHalfEven (of_int n) = n"
  by (simp add: roundHalfEven_def)

lemma roundHalfEven_floor: "\<lfloor>x\<rfloor> \<le> roundHalfEven x" "roundHalfEven x \<le> \<lfloor>x\<rfloor> + 1"
  by (simp_all add: roundHalfEven_def Let_def)

lemma roundHalfEven_mono:
  assumes "x \<le> y"
  shows "roundHalfEven x \<le> roundHalfEven y"
proof (cases "\<lfloor>x\<rfloor> = \<lfloor>y\<rfloor>")
  case True
  with assms show ?thesis
    by (auto simp: roundHalfEven_def Let_def)
next
  case False
  with assms have "\<lfloor>x\<rfloor> + 1 \<le> \<lfloor>y\<rfloor>"
    using floor_mono [OF assms] by linarith
  with roundHalfEven_floor(2) [of x] roundHalfEven_floor(1) [of y] show ?thesis
    by linarith
qed

lemma roundHalfEven_bound:
  assumes "\<bar>q\<bar> \<le> of_int b"
  shows "\<bar>roundHalfEven q\<bar> \<le> b"
proof -
  from assms have "q \<le> of_int b" "of_int (- b) \<le> q" by (simp_all add: abs_le_iff)
  from roundHalfEven_mono [OF this(1)] roundHalfEven_mono [OF this(2)]
  have "roundHalfEven q \<le> b" "- b \<le> roundHalfEven q"
    unfolding roundHalfEven_int .
  then show ?thesis by simp
qed

lemma roundHalfEven_least:
  assumes "of_int b \<le> \<bar>q\<bar>"
  shows "b \<le> \<bar>roundHalfEven q\<bar>"
proof (cases "0 \<le> q")
  case True
  with assms have "of_int b \<le> q" by simp
  from roundHalfEven_mono [OF this] have "b \<le> roundHalfEven q"
    unfolding roundHalfEven_int .
  then show ?thesis by simp
next
  case False
  with assms have "q \<le> of_int (- b)" by simp
  from roundHalfEven_mono [OF this] have "roundHalfEven q \<le> - b"
    unfolding roundHalfEven_int .
  then show ?thesis by simp
qed

lemma nearestDouble_idem: "nearestDouble (nearestDouble x) = nearestDouble x"
proof (cases "nearestDouble x = 0")
  case True
  then show ?thesis by (simp add: nearestDouble_def)
next
  case False
  then have x: "x \<noteq> 0" by (auto simp: nearestDouble_def)
  define e where "e = max (exponentOf x) (- 1022)"
  define u :: real where "u = 2 powi (e - 52)"
  define q where "q = x / u"
  define n where "n = roundHalfEven q"
  define y where "y = of_int n * u"
  have u: "0 < u" by (simp add: u_def)
  have ux: "ulpOf x = u" by (simp add: ulpOf_def u_def e_def)
  have y: "nearestDouble x = y" using x by (simp add: nearestDouble_def ux y_def n_def q_def)
  with False have y0: "y \<noteq> 0" by simp
  have ax: "\<bar>x\<bar> = \<bar>q\<bar> * u" using u by (simp add: q_def abs_mult)
  have ay: "\<bar>y\<bar> = of_int \<bar>n\<bar> * u" using u by (simp add: y_def abs_mult)
  have p53: "(2::real) powi (e + 1) = of_int (2 ^ 53) * u"
    by (simp add: u_def power_int_diff power_int_add)
  have p52: "(2::real) powi e = of_int (2 ^ 52) * u"
    by (simp add: u_def power_int_diff)
  have "\<bar>x\<bar> < 2 powi (exponentOf x + 1)" using exponentOf_bounds(2) [OF x] .
  also have "\<dots> \<le> 2 powi (e + 1)"
    by (intro power_int_increasing) (simp_all add: e_def)
  finally have "\<bar>q\<bar> * u < of_int (2 ^ 53) * u" by (simp only: p53 ax)
  with u have "\<bar>q\<bar> \<le> of_int (2 ^ 53)" by simp
  from roundHalfEven_bound [OF this] have nb: "\<bar>n\<bar> \<le> 2 ^ 53" by (simp add: n_def)
  show ?thesis
  proof (cases "\<bar>n\<bar> = 2 ^ 53")
    case True
    then have "\<bar>y\<bar> = 2 powi (e + 1)" by (simp only: ay p53)
    moreover have "(2::real) powi (e + 1) < 2 powi (e + 1 + 1)"
      by (intro power_int_strict_increasing) simp_all
    ultimately have "exponentOf y = e + 1"
      by (intro exponentOf_unique) simp_all
    moreover have "- 1022 \<le> e" by (simp add: e_def)
    ultimately have uy: "ulpOf y = 2 * u"
      by (simp add: ulpOf_def u_def power_int_diff power_int_add max_def)
    from True have "even \<bar>n\<bar>" by simp
    then have "even n" by presburger
    then obtain m where m: "n = 2 * m" by (auto elim: evenE)
    have "y / ulpOf y = y / (2 * u)" by (simp only: uy)
    also have "\<dots> = of_int m" using u m by (simp add: y_def)
    finally have "y / ulpOf y = of_int m" .
    then have "nearestDouble y = of_int m * (2 * u)"
      using y0 by (simp add: nearestDouble_def uy)
    then show ?thesis using m by (simp add: y y_def)
  next
    case small: False
    with nb have "\<bar>n\<bar> < 2 ^ 53" by simp
    then have "(of_int \<bar>n\<bar> :: real) < of_int (2 ^ 53)"
      by (simp only: of_int_less_iff)
    with u have yhi: "\<bar>y\<bar> < 2 powi (e + 1)" by (simp only: ay p53) simp
    have "max (exponentOf y) (- 1022) = e"
    proof (cases "- 1022 \<le> exponentOf x")
      case True
      then have ee: "e = exponentOf x" by (simp add: e_def)
      from exponentOf_bounds(1) [OF x] have "of_int (2 ^ 52) * u \<le> \<bar>q\<bar> * u"
        by (simp only: ee [symmetric] p52 ax)
      with u have "of_int (2 ^ 52) \<le> \<bar>q\<bar>" by simp
      from roundHalfEven_least [OF this] have "2 ^ 52 \<le> \<bar>n\<bar>" by (simp add: n_def)
      then have "(of_int (2 ^ 52) :: real) \<le> of_int \<bar>n\<bar>"
        by (simp only: of_int_le_iff)
      with u have "2 powi e \<le> \<bar>y\<bar>" by (simp only: ay p52) simp
      from exponentOf_unique [OF this yhi] True ee show ?thesis by simp
    next
      case False
      then have ee: "e = - 1022" by (simp add: e_def)
      from False have "exponentOf x + 1 \<le> - 1022" by simp
      then have "(2::real) powi (exponentOf x + 1) \<le> 2 powi (- 1022)"
        by (intro power_int_increasing) simp_all
      with exponentOf_bounds(2) [OF x] have "\<bar>x\<bar> < 2 powi e" by (simp add: ee)
      then have "\<bar>q\<bar> * u < of_int (2 ^ 52) * u" by (simp only: p52 ax)
      with u have "\<bar>q\<bar> \<le> of_int (2 ^ 52)" by simp
      from roundHalfEven_bound [OF this] have "\<bar>n\<bar> \<le> 2 ^ 52" by (simp add: n_def)
      then have "(of_int \<bar>n\<bar> :: real) \<le> of_int (2 ^ 52)"
        by (simp only: of_int_le_iff)
      with u have "\<bar>y\<bar> \<le> 2 powi e" by (simp only: ay p52) simp
      also have "(2::real) powi e < 2 powi (- 1021)"
        unfolding ee by (intro power_int_strict_increasing) simp_all
      finally have "\<bar>y\<bar> < 2 powi (- 1021)" .
      with y0 have "exponentOf y < - 1021" by (intro exponentOf_less)
      then show ?thesis by (simp add: ee)
    qed
    then have "ulpOf y = u" by (simp add: ulpOf_def u_def)
    moreover have "y / u = of_int n" using u by (simp add: y_def)
    ultimately have "nearestDouble y = y"
      using y0 by (simp add: nearestDouble_def y_def)
    then show ?thesis by (simp add: y)
  qed
qed

lemma specProgress_double:
  assumes "nearestDouble r = r"
  shows "nearestDouble (specProgress r) = specProgress r"
proof -
  define z where "z = (if r \<le> 1 then nearestDouble (r * 100) else r)"
  have z: "nearestDouble z = z"
    using assms by (simp add: z_def nearestDouble_idem)
  have c: "nearestDouble 100 = 100" "nearestDouble 0 = 0"
    by code_simp+
  have "max 0 (min 100 z) = 0 \<or> max 0 (min 100 z) = 100 \<or> max 0 (min 100 z) = z"
    by (auto simp: max_def min_def)
  with z c show ?thesis
    unfolding specProgress_def z_def [symmetric] by auto
qed

lemma toDouble_cases:
  "toDouble y = Finite (nearestDouble y) \<or> (0 < y \<and> toDouble y = PosInfinity \<and> 2 ^ 1024 \<le> nearestDouble y)
     \<or> (y < 0 \<and> toDouble y = NegInfinity \<and> nearestDouble y \<le> - (2 ^ 1024))"
proof (cases "nearestDouble y \<noteq> 0 \<and> 1023 < exponentOf (nearestDouble y)")
  case False
  then show ?thesis by (auto simp: toDouble_def Let_def)
next
  case True
  then have "(2::real) powi 1024 \<le> 2 powi exponentOf (nearestDouble y)"
    by (intro power_int_increasing) simp_all
  with exponentOf_bounds(1) [of "nearestDouble y"] True
  have big: "2 ^ 1024 \<le> \<bar>nearestDouble y\<bar>" by simp
  show ?thesis
  proof (cases "0 < y")
    case pos: True
    with nearestDouble_sign(1) [of y] big True show ?thesis
      by (simp add: toDouble_def Let_def)
  next
    case neg: False
    with nearestDouble_sign(2) [of y] big True have "nearestDouble y \<le> - (2 ^ 1024)" "y \<noteq> 0"
      by (auto simp: nearestDouble_def)
    with neg True show ?thesis
      by (simp add: toDouble_def Let_def)
  qed
qed

lemma nearestDouble_le_100:
  assumes "y \<le> 100"
  shows "nearestDouble y < 2 ^ 1024"
proof (cases "y \<le> 0")
  case True
  from nearestDouble_sign(2) [OF this] show ?thesis
    by (rule le_less_trans) simp
next
  case False
  with assms have "y \<noteq> 0" "\<bar>y\<bar> \<le> 100" by simp_all
  from ulpOf_small [OF this] have "ulpOf y \<le> 1"
    by (rule order_trans) simp
  with nearestDouble_error [of y] assms have "nearestDouble y \<le> 101"
    by linarith
  then show ?thesis by (rule le_less_trans) simp
qed

lemma clamp_finite:
  "mathMax (Finite 0) (mathMin (Finite 100) (Finite x)) = Finite (max 0 (min 100 x))"
  by (auto simp: mathMax_def mathMin_def lessEq_def max_def min_def)

lemma clamp_toDouble:
  assumes "y \<le> 100"
  shows "mathMax (Finite 0) (mathMin (Finite 100) (toDouble y)) = Finite (max 0 (min 100 (nearestDouble y)))"
  using toDouble_cases [of y] nearestDouble_le_100 [OF assms]
  by (auto simp: clamp_finite mathMax_def mathMin_def lessEq_def)

lemma normalize_clamped:
  "mathMax (Finite 0) (mathMin (Finite 100)
     (if lessEq (Finite r) (Finite 1) then times_num (Finite r) (Finite 100) else Finite r))
     = Finite (specProgress r)"
proof (cases "r \<le> 1")
  case True
  then have "r * 100 \<le> 100" by simp
  from clamp_toDouble [OF this] True show ?thesis
    by (simp add: lessEq_def times_num_def specProgress_def)
next
  case False
  then show ?thesis
    by (simp add: lessEq_def clamp_finite specProgress_def)
qed

lemma clamp_close:
  fixes d y e :: real
  assumes "0 \<le> y" and "y \<le> 100" and "\<bar>d - y\<bar> \<le> e"
  shows "\<bar>max 0 (min 100 d) - y\<bar> \<le> e"
  using assms by (simp add: max_def min_def) linarith

lemma specProgress_close:
  assumes "0 \<le> r" and "r \<le> 1"
  shows "\<bar>specProgress r - r * 100\<bar> \<le> 1 / 2 ^ 47"
proof (cases "r = 0")
  case True
  then show ?thesis by (simp add: specProgress_def nearestDouble_def)
next
  case False
  with assms have "r * 100 \<noteq> 0" "\<bar>r * 100\<bar> \<le> 100" by simp_all
  from ulpOf_small [OF this] nearestDouble_error [of "r * 100"]
  have "\<bar>nearestDouble (r * 100) - r * 100\<bar> \<le> 1 / 2 ^ 47" by simp
  moreover have "0 \<le> r * 100" "r * 100 \<le> 100" using assms by simp_all
  ultimately show ?thesis using assms(2) clamp_close [of "r * 100" "nearestDouble (r * 100)" "1 / 2 ^ 47"]
    by (simp add: specProgress_def)
qed

text \<open>
  C6 as stated fails for the client's \<open>resolveProgress\<close>: it rejects only \<open>NaN\<close>, so the
  non-finite inputs \<open>Infinity\<close> and \<open>-Infinity\<close> are clamped to 100 and 0 instead of
  yielding null.
\<close>

theorem resolveProgress_clamps_infinities:
  "\<not> isFinite PosInfinity \<and> resolveProgress (Some PosInfinity) = Some (Finite 100) \<and>
   \<not> isFinite NegInfinity \<and> resolveProgress (Some NegInfinity) = Some (Finite 0)"
  by (simp add: resolveProgress_def mathMax_def mathMin_def lessEq_def times_num_def)

text \<open>
  C6, amended. On a finite number \<open>r\<close> both \<open>buildProgress\<close> (server) and
  \<open>resolveProgress\<close> (client) return \<open>specProgress r\<close>: a value of at most 1 times 100, a
  larger value as it is, clamped into \<open>[0,100]\<close>. The product is the product of doubles,
  the exact product rounded to the nearest double: for \<open>r\<close> in \<open>[0,1]\<close> the result is
  within \<open>2^-47\<close> of \<open>100 r\<close>; a value of at most 0 gives 0 and a value above 1 gives the
  smaller of the value and 100; the result for a double is a double. So 0.42 gives 42,
  57 gives 57, 142 gives 100 and -5 gives 0, while 0.07 gives 7.000000000000001, which
  is \<open>7 + 2^-50\<close> (a decimal literal denotes the double nearest to it). \<open>buildProgress\<close>
  does the same on a string that converts to a finite number. A null or missing input yields null in both. A non-finite number
  yields null in \<open>buildProgress\<close>; in \<open>resolveProgress\<close> only \<open>NaN\<close> yields null, while
  \<open>Infinity\<close> yields 100 and \<open>-Infinity\<close> yields 0.
\<close>

theorem progress_normalization:
  "buildProgress toNumber (Some (JNum (Finite r))) = Some (Finite (specProgress r)) \<and>
   resolveProgress (Some (Finite r)) = Some (Finite (specProgress r)) \<and>
   (trim s \<noteq> [] \<and> toNumber (trim s) = Finite r \<longrightarrow>
      buildProgress toNumber (Some (JStr s)) = Some (Finite (specProgress r))) \<and>
   0 \<le> specProgress r \<and> specProgress r \<le> 100 \<and>
   (0 \<le> r \<and> r \<le> 1 \<longrightarrow> \<bar>specProgress r - r * 100\<bar> \<le> 1 / 2 ^ 47) \<and>
   (r \<le> 0 \<longrightarrow> specProgress r = 0) \<and>
   (1 < r \<longrightarrow> specProgress r = min 100 r) \<and>
   (nearestDouble r = r \<longrightarrow> nearestDouble (specProgress r) = specProgress r) \<and>
   buildProgress toNumber (Some (JNum (toDouble 0.42))) = Some (Finite 42) \<and>
   buildProgress toNumber (Some (JNum (toDouble 57))) = Some (Finite 57) \<and>
   buildProgress toNumber (Some (JNum (toDouble 142))) = Some (Finite 100) \<and>
   buildProgress toNumber (Some (JNum (toDouble (- 5)))) = Some (Finite 0) \<and>
   buildProgress toNumber (Some (JNum (toDouble 0.07))) = Some (Finite (7 + 1 / 2 ^ 50)) \<and>
   resolveProgress (Some (toDouble 0.42)) = Some (Finite 42) \<and>
   resolveProgress (Some (toDouble 57)) = Some (Finite 57) \<and>
   resolveProgress (Some (toDouble 142)) = Some (Finite 100) \<and>
   resolveProgress (Some (toDouble (- 5))) = Some (Finite 0) \<and>
   resolveProgress (Some (toDouble 0.07)) = Some (Finite (7 + 1 / 2 ^ 50)) \<and>
   buildProgress toNumber None = None \<and>
   buildProgress toNumber (Some JNull) = None \<and>
   (\<not> isFinite n \<longrightarrow> buildProgress toNumber (Some (JNum n)) = None) \<and>
   resolveProgress None = None \<and>
   resolveProgress (Some NaN) = None \<and>
   resolveProgress (Some PosInfinity) = Some (Finite 100) \<and>
   resolveProgress (Some NegInfinity) = Some (Finite 0)"
proof -
  have b: "buildProgress toNumber (Some (JNum (Finite x))) = Some (Finite (specProgress x))" for x
    by (simp add: buildProgress_def buildNumber_def Let_def normalize_clamped)
  have c: "resolveProgress (Some (Finite x)) = Some (Finite (specProgress x))" for x
    by (simp add: resolveProgress_def Let_def normalize_clamped)
  have str: "buildProgress toNumber (Some (JStr s)) = Some (Finite (specProgress r))"
    if "trim s \<noteq> [] \<and> toNumber (trim s) = Finite r"
    using that
    by (simp add: buildProgress_def buildNumber_def Let_def normalize_clamped)
  have range: "0 \<le> specProgress r" "specProgress r \<le> 100"
    by (simp_all add: specProgress_def)
  have close: "\<bar>specProgress r - r * 100\<bar> \<le> 1 / 2 ^ 47" if "0 \<le> r \<and> r \<le> 1"
    using that specProgress_close [of r] by simp
  have low: "specProgress r = 0" if "r \<le> 0"
  proof -
    from that have "r * 100 \<le> 0" by (simp add: mult_le_0_iff)
    from nearestDouble_sign(2) [OF this] that show ?thesis
      by (simp add: specProgress_def)
  qed
  have high: "specProgress r = min 100 r" if "1 < r"
    using that by (simp add: specProgress_def)
  have dbl: "nearestDouble (specProgress r) = specProgress r" if "nearestDouble r = r"
    using that by (rule specProgress_double)
  have lit: "toDouble 0.42 = Finite (7566047373982433 / 2 ^ 54)" "toDouble 57 = Finite 57"
    "toDouble 142 = Finite 142" "toDouble (- 5) = Finite (- 5)"
    "toDouble 0.07 = Finite (1261007895663739 / 2 ^ 54)"
    by code_simp+
  have ex: "specProgress (7566047373982433 / 2 ^ 54) = 42" "specProgress 57 = 57"
    "specProgress 142 = 100" "specProgress (- 5) = 0"
    "specProgress (1261007895663739 / 2 ^ 54) = 7 + 1 / 2 ^ 50"
    by code_simp+
  have none: "buildProgress toNumber None = None" "buildProgress toNumber (Some JNull) = None"
    "resolveProgress None = None" "resolveProgress (Some NaN) = None"
    by (simp_all add: buildProgress_def buildNumber_def resolveProgress_def)
  have nonfin: "buildProgress toNumber (Some (JNum n)) = None" if "\<not> isFinite n"
    using that by (cases n) (simp_all add: buildProgress_def buildNumber_def)
  have inf: "resolveProgress (Some PosInfinity) = Some (Finite 100)"
    "resolveProgress (Some NegInfinity) = Some (Finite 0)"
    by (simp_all add: resolveProgress_def mathMax_def mathMin_def lessEq_def times_num_def)
  show ?thesis
    unfolding lit
    using b [of r] c [of r] str range close low high dbl none nonfin inf
      b [of "7566047373982433 / 2 ^ 54"] b [of 57] b [of 142] b [of "- 5"]
      b [of "1261007895663739 / 2 ^ 54"]
      c [of "7566047373982433 / 2 ^ 54"] c [of 57] c [of 142] c [of "- 5"]
      c [of "1261007895663739 / 2 ^ 54"]
    unfolding ex by blast
qed

theorem progress_normalization_witness:
  "trim '' 0.5 '' = ''0.5'' \<and>
   buildProgress (\<lambda>text. if text = ''0.5'' then Finite 0.5 else NaN) (Some (JStr '' 0.5 '')) = Some (Finite 50) \<and>
   \<bar>specProgress 0.5 - 0.5 * 100\<bar> \<le> 1 / 2 ^ 47 \<and>
   nearestDouble 0.5 = 0.5 \<and> nearestDouble (specProgress 0.5) = specProgress 0.5 \<and>
   specProgress (- 5) = 0 \<and>
   specProgress 142 = 100 \<and>
   \<not> isFinite PosInfinity \<and>
   buildProgress (\<lambda>text. if text = ''0.5'' then Finite 0.5 else NaN) (Some (JNum PosInfinity)) = None"
proof -
  define conv :: "string \<Rightarrow> number" where "conv = (\<lambda>text. if text = ''0.5'' then Finite 0.5 else NaN)"
  have t: "trim '' 0.5 '' = ''0.5''"
    by code_simp
  then have h: "trim '' 0.5 '' \<noteq> [] \<and> conv (trim '' 0.5 '') = Finite 0.5"
    by (simp add: conv_def)
  have v: "specProgress 0.5 = 50"
    by code_simp
  have nf: "\<not> isFinite PosInfinity" by simp
  have half: "nearestDouble 0.5 = 0.5"
    by code_simp
  from progress_normalization [of conv "0.5" "'' 0.5 ''" PosInfinity] h nf t half
  have one: "buildProgress conv (Some (JStr '' 0.5 '')) = Some (Finite (specProgress 0.5))"
    and two: "\<bar>specProgress 0.5 - 0.5 * 100\<bar> \<le> 1 / 2 ^ 47"
    and three: "buildProgress conv (Some (JNum PosInfinity)) = None"
    and six: "nearestDouble (specProgress 0.5) = specProgress 0.5"
    by simp_all
  have four: "specProgress (- 5) = 0"
    using progress_normalization [of conv "- 5" "[]" NaN] by simp
  have five: "specProgress 142 = 100"
    using progress_normalization [of conv 142 "[]" NaN] by simp
  from one two three four five six half v t nf show ?thesis
    unfolding conv_def by simp
qed

section \<open>Timeouts of the upstream proxies\<close>

lemma aborted_is_504: "includes_str abortMessage ''aborted''"
  unfolding abortMessage_def by code_simp

text \<open>An upstream answer with a status that admits no body is answered with 502: building
  the reply with that status throws.\<close>

lemma not_modified_is_502:
  "overviewGET toNumber (Inr base)
     \<lparr>settlesAfter = Some 0, outcome = Responds \<lparr>status = 304, parsedBody = Inl []\<rparr>\<rparr> =
   Some (failure 502
     ''Moonraker request failed: Response constructor: Invalid response status code 304'')"
proof -
  have "decimal 304 = ''304''"
    by code_simp
  then show ?thesis
    by (simp add: overviewGET_def fetch_def ok_def jsonReply_def nullBodyStatus_def)
qed

text \<open>
  C4 at the failing input. When the upstream exchange takes 8000 ms or more, or never
  ends, the printer-console proxy answers with the failure envelope of a timeout (504).
  The printer-overview proxy applies no timeout: its answer does not depend on how long
  the upstream takes, it never answers an upstream that never does, and to
  \<open>slowUpstream\<close>, which takes a minute, it answers with the success envelope.
\<close>

theorem overview_applies_no_timeout:
  "(settlesAfter up = None \<or> (\<exists>t. settlesAfter up = Some t \<and> 8000 \<le> t) \<longrightarrow>
      consoleGET (Inr base) up =
        Some (failure 504 (''Moonraker request failed: '' @ abortMessage))) \<and>
   (settlesAfter up = None \<longrightarrow> overviewGET toNumber (Inr base) up = None) \<and>
   (settlesAfter up \<noteq> None \<longrightarrow>
      overviewGET toNumber (Inr base) up =
        overviewGET toNumber (Inr base) (up\<lparr>settlesAfter := Some 0\<rparr>)) \<and>
   overviewGET toNumber (Inr base) slowUpstream =
     Some \<lparr>code = 200,
           body = JObj [(''ok'', JBool True), (''baseUrl'', JStr base),
                        (''data'', overviewData toNumber (JObj []))]\<rparr>"
proof (intro conjI impI)
  assume "settlesAfter up = None \<or> (\<exists>t. settlesAfter up = Some t \<and> 8000 \<le> t)"
  then have "fetch (Some 8000) up = Some (Rejects abortMessage)"
    by (auto simp: fetch_def)
  then show "consoleGET (Inr base) up =
        Some (failure 504 (''Moonraker request failed: '' @ abortMessage))"
    by (simp add: consoleGET_def aborted_is_504)
next
  assume "settlesAfter up = None"
  then show "overviewGET toNumber (Inr base) up = None"
    by (simp add: overviewGET_def fetch_def)
next
  assume "settlesAfter up \<noteq> None"
  then have "fetch None up = fetch None (up\<lparr>settlesAfter := Some 0\<rparr>)"
    by (auto simp: fetch_def)
  then show "overviewGET toNumber (Inr base) up =
        overviewGET toNumber (Inr base) (up\<lparr>settlesAfter := Some 0\<rparr>)"
    by (simp add: overviewGET_def)
next
  show "overviewGET toNumber (Inr base) slowUpstream =
     Some \<lparr>code = 200,
           body = JObj [(''ok'', JBool True), (''baseUrl'', JStr base),
                        (''data'', overviewData toNumber (JObj []))]\<rparr>"
    by (simp add: overviewGET_def fetch_def slowUpstream_def ok_def)
qed

theorem overview_applies_no_timeout_witness:
  "settlesAfter slowUpstream = Some 60000 \<and>
   consoleGET (Inr ''http://10.0.0.5'') slowUpstream =
     Some (failure 504 ''Moonraker request failed: This operation was aborted'') \<and>
   overviewGET (\<lambda>text. NaN) (Inr ''http://10.0.0.5'') slowUpstream =
     overviewGET (\<lambda>text. NaN) (Inr ''http://10.0.0.5'') (slowUpstream\<lparr>settlesAfter := Some 0\<rparr>)"
proof -
  have t: "settlesAfter slowUpstream = Some 60000"
    by (simp add: slowUpstream_def)
  then have h: "settlesAfter slowUpstream = None \<or> (\<exists>t. settlesAfter slowUpstream = Some t \<and> 8000 \<le> t)"
    by simp
  from t have n: "settlesAfter slowUpstream \<noteq> None"
    by simp
  from overview_applies_no_timeout [of slowUpstream "''http://10.0.0.5''" "\<lambda>text. NaN"] h n t
  show ?thesis
    by (simp add: abortMessage_def)
qed

end
